theory Spec2Isabelle
  imports Complex_Main
begin

section \<open>Self-organizing map of \<^verbatim>\<open>ark/phenotyping/cluster.py\<close>\<close>

text \<open>
  The module trains a self-organizing map on the rows of a pixel matrix and labels every
  row with its winning neuron. Its numbers are float64; here they are real numbers, so
  rounding, overflow, NaN and the infinities are outside this development, except for
  the decay and the denominator of the kernel, which are given with float64 rounding as
  well. Python
  integers are \<open>int\<close>; sizes and array indices, which numpy never lets go negative,
  are \<open>nat\<close>. Every exception of the module is a value \<open>Inl e\<close>.
\<close>

subsection \<open>Errors\<close>

datatype error = ValueError | IndexError | KeyError | ZeroDivisionError | TypeError

type_synonym 'a result = "error + 'a"

subsection \<open>The decay schedule\<close>

text \<open>
  \<^verbatim>\<open>return param / (1 + t / (num_iters / 2))\<close>

  \<open>num_iters / 2\<close> is a true division of integers and never raises. Dividing
  \<open>t\<close> by it raises ZeroDivisionError when \<open>num_iters\<close> is 0, and so does the last
  division when \<open>1 + t / (num_iters / 2)\<close> is 0 (the operands are Python floats).
\<close>

definition decay_function :: "real \<Rightarrow> int \<Rightarrow> int \<Rightarrow> real result" where
  "decay_function param t num_iters =
     (let half = real_of_int num_iters / 2 in
      if half = 0 then Inl ZeroDivisionError
      else let q = 1 + real_of_int t / half in
        if q = 0 then Inl ZeroDivisionError else Inr (param / q))"

subsection \<open>Arrays\<close>

text \<open>
  A numpy array is its shape and its elements. The rank of every array of the module is
  fixed by its role, so there is one type per rank: a sample is a one-dimensional array
  (a list), the meshes and the activation map are two-dimensional, the weights are
  three-dimensional. Elements are read through an index function; only the values at
  indices inside the shape belong to the array. A DataFrame is its shape, the labels of
  its rows (its index, integers here) by position, and its values by position.
\<close>

type_synonym vec = "real list"

record mat =
  m_rows :: nat
  m_cols :: nat
  m_at :: "nat \<Rightarrow> nat \<Rightarrow> real"

record grid =
  num_x :: nat
  num_y :: nat
  num_chans :: nat
  g_at :: "nat \<Rightarrow> nat \<Rightarrow> nat \<Rightarrow> real"

record dataframe =
  n_rows :: nat
  n_cols :: nat
  df_index :: "nat \<Rightarrow> int"
  df_at :: "nat \<Rightarrow> nat \<Rightarrow> real"

text \<open>
  Broadcasting of one axis: two sizes are compatible when they are equal or one of them
  is 1, and the axis of size 1 is read at index 0 throughout.
\<close>

definition broadcast_dim :: "nat \<Rightarrow> nat \<Rightarrow> nat result" where
  "broadcast_dim m n =
     (if m = n then Inr n
      else if m = 1 then Inr n
      else if n = 1 then Inr m
      else Inl ValueError)"

definition bidx :: "nat \<Rightarrow> nat \<Rightarrow> nat" where
  "bidx n i = (if n = 1 then 0 else i)"

text \<open>\<^verbatim>\<open>sample - weights\<close>: the sample is broadcast against the last axis.\<close>

definition np_subtract :: "vec \<Rightarrow> grid \<Rightarrow> grid result" where
  "np_subtract v a =
     (case broadcast_dim (length v) (num_chans a) of
        Inl e \<Rightarrow> Inl e
      | Inr c \<Rightarrow>
          Inr \<lparr>num_x = num_x a, num_y = num_y a, num_chans = c,
               g_at = \<lambda>x y k. v ! bidx (length v) k - g_at a x y (bidx (num_chans a) k)\<rparr>)"

text \<open>\<^verbatim>\<open>np.linalg.norm(a, axis=-1)\<close>: the 2-norm along the last axis.\<close>

definition np_linalg_norm :: "grid \<Rightarrow> mat" where
  "np_linalg_norm a =
     \<lparr>m_rows = num_x a, m_cols = num_y a,
      m_at = \<lambda>x y. sqrt (sum_list (map (\<lambda>k. (g_at a x y k)\<^sup>2) [0..<num_chans a]))\<rparr>"

text \<open>
  \<^verbatim>\<open>a.argmin()\<close> works on the array flattened in row-major order: the element at flat
  index \<open>i\<close> is the one at \<open>(i div cols, i mod cols)\<close>. It scans once, keeps the first
  strictly smaller value, and raises ValueError on an empty array.
\<close>

definition ravel :: "mat \<Rightarrow> real list" where
  "ravel a = map (\<lambda>i. m_at a (i div m_cols a) (i mod m_cols a)) [0..<m_rows a * m_cols a]"

fun argmin_from :: "real list \<Rightarrow> nat \<Rightarrow> nat \<Rightarrow> real \<Rightarrow> nat" where
  "argmin_from [] i best v = best"
| "argmin_from (x # xs) i best v =
     (if x < v then argmin_from xs (Suc i) i x else argmin_from xs (Suc i) best v)"

definition np_argmin :: "mat \<Rightarrow> nat result" where
  "np_argmin a =
     (case ravel a of
        [] \<Rightarrow> Inl ValueError
      | x # xs \<Rightarrow> Inr (argmin_from xs 1 0 x))"

definition np_unravel_index :: "nat \<Rightarrow> nat \<times> nat \<Rightarrow> (nat \<times> nat) result" where
  "np_unravel_index i shape =
     (case shape of (r, c) \<Rightarrow>
        if i < r * c then Inr (i div c, i mod c) else Inl ValueError)"

subsection \<open>The nearest-prototype search\<close>

text \<open>
  \<^verbatim>\<open>
  activation_map = np.linalg.norm(np.subtract(sample, weights), axis=-1)
  winning_coords = np.unravel_index(activation_map.argmin(), activation_map.shape)
  return winning_coords
  \<close>
\<close>

definition winner :: "vec \<Rightarrow> grid \<Rightarrow> (nat \<times> nat) result" where
  "winner sample weights =
     (case np_subtract sample weights of
        Inl e \<Rightarrow> Inl e
      | Inr diff \<Rightarrow>
          let activation_map = np_linalg_norm diff in
          case np_argmin activation_map of
            Inl e \<Rightarrow> Inl e
          | Inr i \<Rightarrow> np_unravel_index i (m_rows activation_map, m_cols activation_map))"

subsection \<open>The neighborhood update\<close>

text \<open>
  The operations on two-dimensional arrays that \<open>update\<close> uses: the transpose, indexing
  with a pair (IndexError outside the shape), an elementwise function of one array and
  scalars, the elementwise product of two arrays with broadcasting, the product
  \<^verbatim>\<open>einsum('ij, ijk->ijk', g, a)\<close>, which broadcasts axes of size 1 as well, and the
  sum of two three-dimensional arrays.
\<close>

definition mat_T :: "mat \<Rightarrow> mat" where
  "mat_T a = \<lparr>m_rows = m_cols a, m_cols = m_rows a, m_at = \<lambda>i j. m_at a j i\<rparr>"

definition mat_index :: "mat \<Rightarrow> nat \<times> nat \<Rightarrow> real result" where
  "mat_index a ij =
     (case ij of (i, j) \<Rightarrow>
        if i < m_rows a \<and> j < m_cols a then Inr (m_at a i j) else Inl IndexError)"

definition mat_map :: "(real \<Rightarrow> real) \<Rightarrow> mat \<Rightarrow> mat" where
  "mat_map f a = a\<lparr>m_at := \<lambda>i j. f (m_at a i j)\<rparr>"

definition mat_multiply :: "mat \<Rightarrow> mat \<Rightarrow> mat result" where
  "mat_multiply a b =
     (case broadcast_dim (m_rows a) (m_rows b) of
        Inl e \<Rightarrow> Inl e
      | Inr r \<Rightarrow>
         (case broadcast_dim (m_cols a) (m_cols b) of
            Inl e \<Rightarrow> Inl e
          | Inr c \<Rightarrow>
              Inr \<lparr>m_rows = r, m_cols = c,
                   m_at = \<lambda>i j. m_at a (bidx (m_rows a) i) (bidx (m_cols a) j)
                                * m_at b (bidx (m_rows b) i) (bidx (m_cols b) j)\<rparr>))"

definition np_einsum :: "mat \<Rightarrow> grid \<Rightarrow> grid result" where
  "np_einsum g a =
     (case broadcast_dim (m_rows g) (num_x a) of
        Inl e \<Rightarrow> Inl e
      | Inr r \<Rightarrow>
         (case broadcast_dim (m_cols g) (num_y a) of
            Inl e \<Rightarrow> Inl e
          | Inr c \<Rightarrow>
              Inr \<lparr>num_x = r, num_y = c, num_chans = num_chans a,
                   g_at = \<lambda>i j k. m_at g (bidx (m_rows g) i) (bidx (m_cols g) j)
                                  * g_at a (bidx (num_x a) i) (bidx (num_y a) j) k\<rparr>))"

definition np_add :: "grid \<Rightarrow> grid \<Rightarrow> grid result" where
  "np_add a b =
     (case broadcast_dim (num_x a) (num_x b) of
        Inl e \<Rightarrow> Inl e
      | Inr r \<Rightarrow>
         (case broadcast_dim (num_y a) (num_y b) of
            Inl e \<Rightarrow> Inl e
          | Inr c \<Rightarrow>
             (case broadcast_dim (num_chans a) (num_chans b) of
                Inl e \<Rightarrow> Inl e
              | Inr n \<Rightarrow>
                  Inr \<lparr>num_x = r, num_y = c, num_chans = n,
                       g_at = \<lambda>i j k.
                         g_at a (bidx (num_x a) i) (bidx (num_y a) j) (bidx (num_chans a) k)
                       + g_at b (bidx (num_x b) i) (bidx (num_y b) j) (bidx (num_chans b) k)\<rparr>)))"

text \<open>
  \<^verbatim>\<open>
  d = 2 * np.pi * sigma * sigma
  ax = np.exp(-np.power(x_mesh - x_mesh.T[winning_coords], 2) / d)
  ay = np.exp(-np.power(y_mesh - y_mesh.T[winning_coords], 2) / d)
  g = (ax * ay).T * learning_rate
  new_weights = weights + np.einsum('ij, ijk->ijk', g, sample - weights)
  return new_weights
  \<close>
  Dividing an array by \<open>d = 0\<close> does not raise in numpy: it yields infinities and NaN,
  which the reals do not have. The value of \<open>update\<close> is meaningful for \<open>d \<noteq> 0\<close> only.
\<close>

definition kernel_denominator :: "real \<Rightarrow> real" where
  "kernel_denominator sigma = 2 * pi * sigma * sigma"

definition update ::
  "vec \<Rightarrow> grid \<Rightarrow> nat \<times> nat \<Rightarrow> real \<Rightarrow> real \<Rightarrow> mat \<Rightarrow> mat \<Rightarrow> grid result" where
  "update sample weights winning_coords sigma learning_rate x_mesh y_mesh =
     (let d = kernel_denominator sigma in
      case mat_index (mat_T x_mesh) winning_coords of
        Inl e \<Rightarrow> Inl e
      | Inr wx \<Rightarrow>
          let ax = mat_map (\<lambda>v. exp (- ((v - wx)\<^sup>2) / d)) x_mesh in
          case mat_index (mat_T y_mesh) winning_coords of
            Inl e \<Rightarrow> Inl e
          | Inr wy \<Rightarrow>
              let ay = mat_map (\<lambda>v. exp (- ((v - wy)\<^sup>2) / d)) y_mesh in
              case mat_multiply ax ay of
                Inl e \<Rightarrow> Inl e
              | Inr axy \<Rightarrow>
                  let g = mat_map (\<lambda>v. v * learning_rate) (mat_T axy) in
                  case np_subtract sample weights of
                    Inl e \<Rightarrow> Inl e
                  | Inr diff \<Rightarrow>
                     (case np_einsum g diff of
                        Inl e \<Rightarrow> Inl e
                      | Inr delta \<Rightarrow> np_add weights delta))"

subsection \<open>Training\<close>

text \<open>
  \<^verbatim>\<open>rand_gen.rand(x_neurons, y_neurons, pixel_mat.shape[1])\<close> is a parameter: the
  function \<open>rand\<close> gives the number drawn for each index. The weights are
  \<open>rand * 2 - 1\<close>, divided in place by their norm along the last axis. A zero norm
  gives NaN in numpy and does not raise; the quotient has no meaning here then, and no
  property below depends on it.
\<close>

definition init_weights :: "(nat \<Rightarrow> nat \<Rightarrow> nat \<Rightarrow> real) \<Rightarrow> nat \<Rightarrow> nat \<Rightarrow> nat \<Rightarrow> grid" where
  "init_weights rand x_neurons y_neurons c =
     (let weights = \<lparr>num_x = x_neurons, num_y = y_neurons, num_chans = c,
                     g_at = \<lambda>x y k. rand x y k * 2 - 1\<rparr>;
          norms = np_linalg_norm weights
      in weights\<lparr>g_at := \<lambda>x y k. g_at weights x y k / m_at norms x y\<rparr>)"

text \<open>
  \<^verbatim>\<open>np.meshgrid(np.arange(x_neurons), np.arange(y_neurons))\<close>, converted to float: both
  arrays have shape \<open>(y_neurons, x_neurons)\<close>; \<open>x_mesh[i, j] = j\<close> and
  \<open>y_mesh[i, j] = i\<close>.
\<close>

definition np_meshgrid :: "nat \<Rightarrow> nat \<Rightarrow> mat \<times> mat" where
  "np_meshgrid x_neurons y_neurons =
     (\<lparr>m_rows = y_neurons, m_cols = x_neurons, m_at = \<lambda>i j. real j\<rparr>,
      \<lparr>m_rows = y_neurons, m_cols = x_neurons, m_at = \<lambda>i j. real i\<rparr>)"

text \<open>The values of the row at a position.\<close>

definition row_values :: "dataframe \<Rightarrow> nat \<Rightarrow> vec" where
  "row_values pixel_mat r = map (df_at pixel_mat r) [0..<n_cols pixel_mat]"

text \<open>
  \<^verbatim>\<open>pixel_mat.loc[row, :].values\<close> looks the row up by its label, not by its position:
  KeyError when no row has the label; the values of the row, a one-dimensional array,
  when one row has it; the values of all rows that have it, a two-dimensional array in
  the order of the frame, when several have it.
\<close>

datatype sample = Row vec | Rows mat

definition df_loc :: "dataframe \<Rightarrow> int \<Rightarrow> sample result" where
  "df_loc pixel_mat label =
     (case filter (\<lambda>p. df_index pixel_mat p = label) [0..<n_rows pixel_mat] of
        [] \<Rightarrow> Inl KeyError
      | [p] \<Rightarrow> Inr (Row (row_values pixel_mat p))
      | ps \<Rightarrow>
          Inr (Rows \<lparr>m_rows = length ps, m_cols = n_cols pixel_mat,
                     m_at = \<lambda>i j. df_at pixel_mat (ps ! i) j\<rparr>))"

text \<open>
  \<open>winner\<close> and \<open>update\<close> on a two-dimensional sample of shape \<open>(k, c)\<close>: the same
  statements; \<^verbatim>\<open>sample - weights\<close> broadcasts \<open>k\<close> against the second axis of the
  weights and \<open>c\<close> against the last.
\<close>

definition np_subtract_rows :: "mat \<Rightarrow> grid \<Rightarrow> grid result" where
  "np_subtract_rows m a =
     (case broadcast_dim (m_rows m) (num_y a) of
        Inl e \<Rightarrow> Inl e
      | Inr r \<Rightarrow>
         (case broadcast_dim (m_cols m) (num_chans a) of
            Inl e \<Rightarrow> Inl e
          | Inr c \<Rightarrow>
              Inr \<lparr>num_x = num_x a, num_y = r, num_chans = c,
                   g_at = \<lambda>x y k. m_at m (bidx (m_rows m) y) (bidx (m_cols m) k)
                                  - g_at a x (bidx (num_y a) y) (bidx (num_chans a) k)\<rparr>))"

definition winner_rows :: "mat \<Rightarrow> grid \<Rightarrow> (nat \<times> nat) result" where
  "winner_rows sample weights =
     (case np_subtract_rows sample weights of
        Inl e \<Rightarrow> Inl e
      | Inr diff \<Rightarrow>
          let activation_map = np_linalg_norm diff in
          case np_argmin activation_map of
            Inl e \<Rightarrow> Inl e
          | Inr i \<Rightarrow> np_unravel_index i (m_rows activation_map, m_cols activation_map))"

definition update_rows ::
  "mat \<Rightarrow> grid \<Rightarrow> nat \<times> nat \<Rightarrow> real \<Rightarrow> real \<Rightarrow> mat \<Rightarrow> mat \<Rightarrow> grid result" where
  "update_rows sample weights winning_coords sigma learning_rate x_mesh y_mesh =
     (let d = kernel_denominator sigma in
      case mat_index (mat_T x_mesh) winning_coords of
        Inl e \<Rightarrow> Inl e
      | Inr wx \<Rightarrow>
          let ax = mat_map (\<lambda>v. exp (- ((v - wx)\<^sup>2) / d)) x_mesh in
          case mat_index (mat_T y_mesh) winning_coords of
            Inl e \<Rightarrow> Inl e
          | Inr wy \<Rightarrow>
              let ay = mat_map (\<lambda>v. exp (- ((v - wy)\<^sup>2) / d)) y_mesh in
              case mat_multiply ax ay of
                Inl e \<Rightarrow> Inl e
              | Inr axy \<Rightarrow>
                  let g = mat_map (\<lambda>v. v * learning_rate) (mat_T axy) in
                  case np_subtract_rows sample weights of
                    Inl e \<Rightarrow> Inl e
                  | Inr diff \<Rightarrow>
                     (case np_einsum g diff of
                        Inl e \<Rightarrow> Inl e
                      | Inr delta \<Rightarrow> np_add weights delta))"

text \<open>
  \<^verbatim>\<open>np.arange(num_iters) % pixel_mat.shape[0]\<close>; \<open>np.arange\<close> of a number below 1 is
  empty.
\<close>

definition iter_rows :: "int \<Rightarrow> nat \<Rightarrow> nat list" where
  "iter_rows num_iters n = map (\<lambda>i. i mod n) [0..<nat num_iters]"

text \<open>
  The body of the loop:
  \<^verbatim>\<open>
  winning_coords = winner(pixel_mat.loc[row, :].values, weights)
  decay_sigma = decay_function(sigma, t, num_iters)
  decay_learning_rate = decay_function(learning_rate, t, num_iters)
  weights = update(pixel_mat.loc[row, :].values, weights,
                   winning_coords, decay_sigma, decay_learning_rate, x_mesh, y_mesh)
  \<close>
\<close>

definition train_step ::
  "dataframe \<Rightarrow> real \<Rightarrow> real \<Rightarrow> int \<Rightarrow> mat \<Rightarrow> mat \<Rightarrow> nat \<Rightarrow> nat \<Rightarrow> grid \<Rightarrow> grid result" where
  "train_step pixel_mat sigma learning_rate num_iters x_mesh y_mesh t row weights =
     (case df_loc pixel_mat (int row) of
        Inl e \<Rightarrow> Inl e
      | Inr (Row sample) \<Rightarrow>
         (case winner sample weights of
            Inl e \<Rightarrow> Inl e
          | Inr winning_coords \<Rightarrow>
             (case decay_function sigma (int t) num_iters of
                Inl e \<Rightarrow> Inl e
              | Inr decay_sigma \<Rightarrow>
                 (case decay_function learning_rate (int t) num_iters of
                    Inl e \<Rightarrow> Inl e
                  | Inr decay_learning_rate \<Rightarrow>
                      update sample weights winning_coords decay_sigma decay_learning_rate
                        x_mesh y_mesh)))
      | Inr (Rows sample) \<Rightarrow>
         (case winner_rows sample weights of
            Inl e \<Rightarrow> Inl e
          | Inr winning_coords \<Rightarrow>
             (case decay_function sigma (int t) num_iters of
                Inl e \<Rightarrow> Inl e
              | Inr decay_sigma \<Rightarrow>
                 (case decay_function learning_rate (int t) num_iters of
                    Inl e \<Rightarrow> Inl e
                  | Inr decay_learning_rate \<Rightarrow>
                      update_rows sample weights winning_coords decay_sigma
                        decay_learning_rate x_mesh y_mesh))))"

text \<open>\<^verbatim>\<open>for t, row in enumerate(iter_row): ...\<close>\<close>

fun train_loop ::
  "dataframe \<Rightarrow> real \<Rightarrow> real \<Rightarrow> int \<Rightarrow> mat \<Rightarrow> mat \<Rightarrow> (nat \<times> nat) list \<Rightarrow> grid \<Rightarrow> grid result" where
  "train_loop pixel_mat sigma learning_rate num_iters x_mesh y_mesh [] weights = Inr weights"
| "train_loop pixel_mat sigma learning_rate num_iters x_mesh y_mesh ((t, row) # rest) weights =
     (case train_step pixel_mat sigma learning_rate num_iters x_mesh y_mesh t row weights of
        Inl e \<Rightarrow> Inl e
      | Inr weights' \<Rightarrow>
          train_loop pixel_mat sigma learning_rate num_iters x_mesh y_mesh rest weights')"

definition train_som ::
  "dataframe \<Rightarrow> nat \<Rightarrow> nat \<Rightarrow> int \<Rightarrow> real \<Rightarrow> real \<Rightarrow> (nat \<Rightarrow> nat \<Rightarrow> nat \<Rightarrow> real) \<Rightarrow> grid result" where
  "train_som pixel_mat x_neurons y_neurons num_passes sigma learning_rate rand =
     (let weights = init_weights rand x_neurons y_neurons (n_cols pixel_mat);
          (x_mesh, y_mesh) = np_meshgrid x_neurons y_neurons;
          num_iters = num_passes * int (n_rows pixel_mat);
          iter_row = iter_rows num_iters (n_rows pixel_mat)
      in train_loop pixel_mat sigma learning_rate num_iters x_mesh y_mesh
           (enumerate 0 iter_row) weights)"

subsection \<open>The quantities the specification names\<close>

text \<open>
  The Euclidean distance between a sample and the prototype of neuron \<open>(x, y)\<close>, and the
  Gaussian neighborhood weight of neuron \<open>(x, y)\<close> around a winning coordinate, as the
  specification writes them:
  \<open>weight(x, y) = exp(-(x - wx)^2 / d) * exp(-(y - wy)^2 / d) * learning_rate\<close> with
  \<open>d = 2 * pi * sigma^2\<close>.
\<close>

definition euclidean_distance :: "vec \<Rightarrow> grid \<Rightarrow> nat \<Rightarrow> nat \<Rightarrow> real" where
  "euclidean_distance s w x y = sqrt (\<Sum>k<num_chans w. (s ! k - g_at w x y k)\<^sup>2)"

definition neighborhood_weight :: "real \<Rightarrow> real \<Rightarrow> nat \<times> nat \<Rightarrow> nat \<Rightarrow> nat \<Rightarrow> real" where
  "neighborhood_weight sigma learning_rate winning_coords x y =
     (case winning_coords of (wx, wy) \<Rightarrow>
        let d = 2 * pi * sigma\<^sup>2 in
        exp (- ((real x - real wx)\<^sup>2) / d) * exp (- ((real y - real wy)\<^sup>2) / d)
          * learning_rate)"

subsection \<open>Example inputs\<close>

text \<open>
  A grid of two neurons with the prototypes \<open>(1, 0)\<close> and \<open>(0, 1)\<close>, and a grid of
  four neurons with one channel whose prototypes are all 0, so that every sample is
  equidistant from all of them.
\<close>

definition two_neuron_grid :: grid where
  "two_neuron_grid =
     \<lparr>num_x = 2, num_y = 1, num_chans = 2, g_at = \<lambda>x y k. if x = k then 1 else 0\<rparr>"

definition tie_grid :: grid where
  "tie_grid = \<lparr>num_x = 2, num_y = 2, num_chans = 1, g_at = \<lambda>x y k. 0\<rparr>"

text \<open>
  The sample matrix of the specification's end-to-end scenario,
  \<open>[[1, 0], [0, 1], [1, 0], [0, 1]]\<close>, a sample matrix without rows, and a fixed
  outcome of the random generator. Both frames have the default index: the label of a
  row is its position.
\<close>

definition example_frame :: dataframe where
  "example_frame =
     \<lparr>n_rows = 4, n_cols = 2, df_index = int,
      df_at = \<lambda>r c. if r mod 2 = c then 1 else 0\<rparr>"

definition empty_frame :: dataframe where
  "empty_frame = \<lparr>n_rows = 0, n_cols = 2, df_index = int, df_at = \<lambda>r c. 0\<rparr>"

text \<open>
  A frame has the default index when the label of every row is its position. The two
  rows \<open>[1, 0]\<close> and \<open>[0, 1]\<close> with the labels 1 and 2, as a frame has them after
  its row 0 was filtered out, and with the labels 1 and 0, as after a reordering.
\<close>

definition default_index :: "dataframe \<Rightarrow> bool" where
  "default_index pixel_mat = (\<forall>p<n_rows pixel_mat. df_index pixel_mat p = int p)"

definition shifted_frame :: dataframe where
  "shifted_frame =
     \<lparr>n_rows = 2, n_cols = 2, df_index = \<lambda>p. int p + 1,
      df_at = \<lambda>r c. if r = c then 1 else 0\<rparr>"

definition swapped_frame :: dataframe where
  "swapped_frame =
     \<lparr>n_rows = 2, n_cols = 2, df_index = \<lambda>p. 1 - int p,
      df_at = \<lambda>r c. if r = c then 1 else 0\<rparr>"

definition example_rand :: "nat \<Rightarrow> nat \<Rightarrow> nat \<Rightarrow> real" where
  "example_rand x y k = (if x = k then 1 else 1 / 2)"

subsection \<open>Training as the specification describes it\<close>

text \<open>
  The step \<open>t\<close> of \<open>T\<close> in the specification's words: select row \<open>t mod N\<close>, compute the
  decayed sigma and learning rate from \<open>t\<close> and \<open>T\<close>, find the winning coordinate of
  that row on the current grid, and apply the neighborhood update on the coordinate mesh
  of \<open>(X, Y)\<close>. \<open>spec_grid_after ... t\<close> is the grid after the first \<open>t\<close> steps, each
  step starting from the grid the previous one left.
\<close>

definition spec_step ::
  "dataframe \<Rightarrow> nat \<Rightarrow> nat \<Rightarrow> real \<Rightarrow> real \<Rightarrow> nat \<Rightarrow> nat \<Rightarrow> grid \<Rightarrow> grid result" where
  "spec_step sample_matrix x_neurons y_neurons sigma learning_rate T t g =
     (let row = row_values sample_matrix (t mod n_rows sample_matrix) in
      case decay_function sigma (int t) (int T) of
        Inl e \<Rightarrow> Inl e
      | Inr sigma_t \<Rightarrow>
         (case decay_function learning_rate (int t) (int T) of
            Inl e \<Rightarrow> Inl e
          | Inr rate_t \<Rightarrow>
             (case winner row g of
                Inl e \<Rightarrow> Inl e
              | Inr c \<Rightarrow>
                  update row g c sigma_t rate_t
                    (fst (np_meshgrid x_neurons y_neurons))
                    (snd (np_meshgrid x_neurons y_neurons)))))"

fun spec_grid_after ::
  "dataframe \<Rightarrow> nat \<Rightarrow> nat \<Rightarrow> real \<Rightarrow> real \<Rightarrow> nat \<Rightarrow> grid \<Rightarrow> nat \<Rightarrow> grid result" where
  "spec_grid_after sample_matrix x_neurons y_neurons sigma learning_rate T g0 0 = Inr g0"
| "spec_grid_after sample_matrix x_neurons y_neurons sigma learning_rate T g0 (Suc t) =
     (case spec_grid_after sample_matrix x_neurons y_neurons sigma learning_rate T g0 t of
        Inl e \<Rightarrow> Inl e
      | Inr g \<Rightarrow> spec_step sample_matrix x_neurons y_neurons sigma learning_rate T t g)"

subsection \<open>Cluster assignment\<close>

text \<open>
  \<^verbatim>\<open>str\<close> of a tuple of two integers, as \<^verbatim>\<open>astype(str)\<close> applies it to every winning
  coordinate: \<^verbatim>\<open>(x, y)\<close> with both numbers in decimal. (numpy 2 prints each number as
  \<^verbatim>\<open>np.int64(x)\<close>; the strings differ, the coordinates they tell apart do not.)
  \<open>nat_of_str\<close> reads a decimal numeral back.
\<close>

definition digit_char :: "nat \<Rightarrow> char" where
  "digit_char d = ''0123456789'' ! d"

fun str_nat :: "nat \<Rightarrow> string" where
  "str_nat n = (if n < 10 then [digit_char n] else str_nat (n div 10) @ [digit_char (n mod 10)])"

declare str_nat.simps [simp del]

declare str_nat.simps [simp del]

definition astype_str :: "nat \<times> nat \<Rightarrow> string" where
  "astype_str c = (case c of (x, y) \<Rightarrow> ''('' @ str_nat x @ '', '' @ str_nat y @ '')'')"

definition nat_of_str :: "string \<Rightarrow> nat" where
  "nat_of_str cs = foldl (\<lambda>a c. 10 * a + (of_char c - 48)) 0 cs"

text \<open>
  \<^verbatim>\<open>pixel_mat.apply(lambda row: winner(np.array(list(row.values)), weights), axis=1)\<close>
  calls the function on every row in row order; an exception of one call ends the
  whole. (For a frame without rows or without columns pandas does not call the function
  row by row; the properties below are about frames with at least one row and column.)
\<close>

definition df_rows :: "dataframe \<Rightarrow> vec list" where
  "df_rows pixel_mat = map (row_values pixel_mat) [0..<n_rows pixel_mat]"

fun apply_rows :: "(vec \<Rightarrow> 'a result) \<Rightarrow> vec list \<Rightarrow> 'a list result" where
  "apply_rows f [] = Inr []"
| "apply_rows f (row # rows) =
     (case f row of
        Inl e \<Rightarrow> Inl e
      | Inr v \<Rightarrow>
         (case apply_rows f rows of
            Inl e \<Rightarrow> Inl e
          | Inr vs \<Rightarrow> Inr (v # vs)))"

text \<open>
  \<^verbatim>\<open>Series.unique()\<close> returns the distinct values in order of first appearance.
\<close>

fun unique_acc :: "'a list \<Rightarrow> 'a list \<Rightarrow> 'a list" where
  "unique_acc seen [] = seen"
| "unique_acc seen (x # xs) =
     (if x \<in> set seen then unique_acc seen xs else unique_acc (seen @ [x]) xs)"

definition unique :: "'a list \<Rightarrow> 'a list" where
  "unique xs = unique_acc [] xs"

text \<open>
  \<^verbatim>\<open>Series.replace(to_replace=..., value=...)\<close> with two lists: an element equal to
  \<open>to_replace[i]\<close> becomes \<open>value[i]\<close>, any other element stays; lists of different
  lengths raise ValueError. An element of the result is a string or an integer.
\<close>

datatype cell = Coord string | Label nat

fun replace_value :: "string list \<Rightarrow> nat list \<Rightarrow> string \<Rightarrow> cell" where
  "replace_value (s # to_replace) (v # value) c =
     (if c = s then Label v else replace_value to_replace value c)"
| "replace_value to_replace value c = Coord c"

definition series_replace :: "string list \<Rightarrow> string list \<Rightarrow> nat list \<Rightarrow> cell list result" where
  "series_replace series to_replace value =
     (if length to_replace \<noteq> length value then Inl ValueError
      else Inr (map (replace_value to_replace value) series))"

text \<open>
  \<^verbatim>\<open>
  cluster_coords = pixel_mat.apply(...).astype(str)
  unique_cluster_coords = cluster_coords.unique()
  coord_to_label = list(range(len(unique_cluster_coords)))
  cluster_labels = cluster_coords.replace(to_replace=unique_cluster_coords,
                                          value=coord_to_label)
  return cluster_labels
  \<close>
  \<open>relabel\<close> is the part after the winning coordinates are known.
\<close>

definition relabel :: "(nat \<times> nat) list \<Rightarrow> cell list result" where
  "relabel coords =
     (let cluster_coords = map astype_str coords;
          unique_cluster_coords = unique cluster_coords;
          coord_to_label = [0..<length unique_cluster_coords]
      in series_replace cluster_coords unique_cluster_coords coord_to_label)"

definition cluster_som :: "dataframe \<Rightarrow> grid \<Rightarrow> cell list result" where
  "cluster_som pixel_mat weights =
     (case apply_rows (\<lambda>row. winner row weights) (df_rows pixel_mat) of
        Inl e \<Rightarrow> Inl e
      | Inr coords \<Rightarrow> relabel coords)"

text \<open>A sample matrix of one row and three channels.\<close>

definition three_channel_frame :: dataframe where
  "three_channel_frame = \<lparr>n_rows = 1, n_cols = 3, df_index = int, df_at = \<lambda>r c. 0\<rparr>"

subsection \<open>Arrays as objects\<close>

text \<open>
  The functions above compute with the values of arrays. To say which arrays a call
  modifies, \<open>winner\<close>, \<open>update\<close> and \<open>cluster_som\<close> are written once more over a store of
  array objects, statement by statement. An array is known by its address, its position
  in the store. Every numpy operation these functions use (\<^verbatim>\<open>np.subtract\<close>,
  \<^verbatim>\<open>np.linalg.norm\<close>, \<^verbatim>\<open>np.power\<close>, \<^verbatim>\<open>np.exp\<close>, \<^verbatim>\<open>np.einsum\<close>, \<^verbatim>\<open>np.array\<close> and the
  arithmetic operators) returns a new array and writes to none of its operands: it reads
  the operands in the store and puts the result at a new address. \<^verbatim>\<open>.T\<close> returns a
  view, which is only read here, so it is a new object as well; a chain of elementwise
  operations is one new object. An operation returns its result, or the exception, and
  the store it leaves.
\<close>

datatype obj = Vec vec | Mat mat | Grid grid

type_synonym heap = "obj list"

type_synonym 'a heap_op = "heap \<Rightarrow> 'a result \<times> heap"

definition bind_h :: "'a heap_op \<Rightarrow> ('a \<Rightarrow> 'b heap_op) \<Rightarrow> 'b heap_op" where
  "bind_h m f h = (case m h of (Inl e, h') \<Rightarrow> (Inl e, h') | (Inr v, h') \<Rightarrow> f v h')"

definition pure_h :: "'a result \<Rightarrow> 'a heap_op" where
  "pure_h r h = (r, h)"

definition new_obj :: "obj \<Rightarrow> nat heap_op" where
  "new_obj v h = (Inr (length h), h @ [v])"

definition read_vec :: "nat \<Rightarrow> vec heap_op" where
  "read_vec a h =
     (if a < length h then (case h ! a of Vec v \<Rightarrow> (Inr v, h) | _ \<Rightarrow> (Inl TypeError, h))
      else (Inl TypeError, h))"

definition read_mat :: "nat \<Rightarrow> mat heap_op" where
  "read_mat a h =
     (if a < length h then (case h ! a of Mat m \<Rightarrow> (Inr m, h) | _ \<Rightarrow> (Inl TypeError, h))
      else (Inl TypeError, h))"

definition read_grid :: "nat \<Rightarrow> grid heap_op" where
  "read_grid a h =
     (if a < length h then (case h ! a of Grid g \<Rightarrow> (Inr g, h) | _ \<Rightarrow> (Inl TypeError, h))
      else (Inl TypeError, h))"

text \<open>The operations of numpy on addresses.\<close>

definition np_subtract_h :: "nat \<Rightarrow> nat \<Rightarrow> nat heap_op" where
  "np_subtract_h a b =
     bind_h (read_vec a) (\<lambda>v.
     bind_h (read_grid b) (\<lambda>g.
     bind_h (pure_h (np_subtract v g)) (\<lambda>d. new_obj (Grid d))))"

definition np_linalg_norm_h :: "nat \<Rightarrow> nat heap_op" where
  "np_linalg_norm_h a = bind_h (read_grid a) (\<lambda>g. new_obj (Mat (np_linalg_norm g)))"

definition np_argmin_h :: "nat \<Rightarrow> nat heap_op" where
  "np_argmin_h a = bind_h (read_mat a) (\<lambda>m. pure_h (np_argmin m))"

definition shape_h :: "nat \<Rightarrow> (nat \<times> nat) heap_op" where
  "shape_h a = bind_h (read_mat a) (\<lambda>m. pure_h (Inr (m_rows m, m_cols m)))"

definition mat_T_h :: "nat \<Rightarrow> nat heap_op" where
  "mat_T_h a = bind_h (read_mat a) (\<lambda>m. new_obj (Mat (mat_T m)))"

definition mat_index_h :: "nat \<Rightarrow> nat \<times> nat \<Rightarrow> real heap_op" where
  "mat_index_h a ij = bind_h (read_mat a) (\<lambda>m. pure_h (mat_index m ij))"

definition mat_map_h :: "(real \<Rightarrow> real) \<Rightarrow> nat \<Rightarrow> nat heap_op" where
  "mat_map_h f a = bind_h (read_mat a) (\<lambda>m. new_obj (Mat (mat_map f m)))"

definition mat_multiply_h :: "nat \<Rightarrow> nat \<Rightarrow> nat heap_op" where
  "mat_multiply_h a b =
     bind_h (read_mat a) (\<lambda>m.
     bind_h (read_mat b) (\<lambda>n.
     bind_h (pure_h (mat_multiply m n)) (\<lambda>p. new_obj (Mat p))))"

definition np_einsum_h :: "nat \<Rightarrow> nat \<Rightarrow> nat heap_op" where
  "np_einsum_h a b =
     bind_h (read_mat a) (\<lambda>m.
     bind_h (read_grid b) (\<lambda>g.
     bind_h (pure_h (np_einsum m g)) (\<lambda>p. new_obj (Grid p))))"

definition np_add_h :: "nat \<Rightarrow> nat \<Rightarrow> nat heap_op" where
  "np_add_h a b =
     bind_h (read_grid a) (\<lambda>g.
     bind_h (read_grid b) (\<lambda>g'.
     bind_h (pure_h (np_add g g')) (\<lambda>p. new_obj (Grid p))))"

text \<open>\<open>winner\<close>, \<open>update\<close> and \<open>cluster_som\<close>, line by line as in the module.\<close>

definition winner_h :: "nat \<Rightarrow> nat \<Rightarrow> (nat \<times> nat) heap_op" where
  "winner_h sample weights =
     bind_h (np_subtract_h sample weights) (\<lambda>diff.
     bind_h (np_linalg_norm_h diff) (\<lambda>activation_map.
     bind_h (np_argmin_h activation_map) (\<lambda>i.
     bind_h (shape_h activation_map) (\<lambda>shape.
     pure_h (np_unravel_index i shape)))))"

definition update_h ::
  "nat \<Rightarrow> nat \<Rightarrow> nat \<times> nat \<Rightarrow> real \<Rightarrow> real \<Rightarrow> nat \<Rightarrow> nat \<Rightarrow> nat heap_op" where
  "update_h sample weights winning_coords sigma learning_rate x_mesh y_mesh =
     (let d = kernel_denominator sigma in
      bind_h (mat_T_h x_mesh) (\<lambda>x_mesh_T.
      bind_h (mat_index_h x_mesh_T winning_coords) (\<lambda>wx.
      bind_h (mat_map_h (\<lambda>v. exp (- ((v - wx)\<^sup>2) / d)) x_mesh) (\<lambda>ax.
      bind_h (mat_T_h y_mesh) (\<lambda>y_mesh_T.
      bind_h (mat_index_h y_mesh_T winning_coords) (\<lambda>wy.
      bind_h (mat_map_h (\<lambda>v. exp (- ((v - wy)\<^sup>2) / d)) y_mesh) (\<lambda>ay.
      bind_h (mat_multiply_h ax ay) (\<lambda>axy.
      bind_h (mat_T_h axy) (\<lambda>axy_T.
      bind_h (mat_map_h (\<lambda>v. v * learning_rate) axy_T) (\<lambda>g.
      bind_h (np_subtract_h sample weights) (\<lambda>diff.
      bind_h (np_einsum_h g diff) (\<lambda>delta.
      np_add_h weights delta))))))))))))"

fun apply_rows_h :: "(vec \<Rightarrow> 'a heap_op) \<Rightarrow> vec list \<Rightarrow> 'a list heap_op" where
  "apply_rows_h f [] = pure_h (Inr [])"
| "apply_rows_h f (row # rows) =
     bind_h (f row) (\<lambda>v.
     bind_h (apply_rows_h f rows) (\<lambda>vs.
     pure_h (Inr (v # vs))))"

definition cluster_som_h :: "dataframe \<Rightarrow> nat \<Rightarrow> cell list heap_op" where
  "cluster_som_h pixel_mat weights =
     bind_h (apply_rows_h
               (\<lambda>row. bind_h (new_obj (Vec row)) (\<lambda>sample. winner_h sample weights))
               (df_rows pixel_mat)) (\<lambda>coords.
     pure_h (relabel coords))"

text \<open>
  An operation leaves every object of the store it starts from as it is when the store
  it ends with begins with that store; it returns a new array when the address it
  returns lies behind the store it starts from.
\<close>

definition frame :: "'a heap_op \<Rightarrow> bool" where
  "frame m = (\<forall>h. take (length h) (snd (m h)) = h)"

definition fresh :: "nat heap_op \<Rightarrow> bool" where
  "fresh m = (\<forall>h r. fst (m h) = Inr r \<longrightarrow> length h \<le> r \<and> r < length (snd (m h)))"

text \<open>
  A store with a sample, a grid and the two meshes of that grid, at the addresses 0 to 3.
\<close>

definition example_heap :: heap where
  "example_heap =
     [Vec [1, 0], Grid two_neuron_grid, Mat (fst (np_meshgrid 2 1)), Mat (snd (np_meshgrid 2 1))]"

subsection \<open>The decay and the kernel denominator in float64\<close>

text \<open>
  Whether the denominator \<open>d\<close> of the kernel is zero depends on the rounding of
  float64, so \<^verbatim>\<open>decay_function\<close> and the line \<^verbatim>\<open>d = 2 * np.pi * sigma * sigma\<close> are
  written once more with every operation rounded. \<open>f64_round\<close> rounds a real number to
  the nearest float64, ties to the even significand: a number of magnitude in
  \<open>[2^e, 2^(e+1))\<close> with \<open>e \<ge> -1022\<close> is rounded to a multiple of \<open>2^(e - 52)\<close>, a
  smaller one (subnormal) to a multiple of \<open>2^(-1074)\<close>. An arithmetic operation of
  Python on floats is the exact operation followed by this rounding; so are the
  conversion of an integer to a float and the true division of two integers.
  \<^verbatim>\<open>np.pi\<close> is the float64 nearest to \<open>pi\<close>. A magnitude of \<open>2^1024\<close> or more, which
  is infinity in float64, is kept as the rounded real number: it is not zero, as
  infinity is not.
\<close>

definition round_half_even :: "real \<Rightarrow> int" where
  "round_half_even y =
     (let f = \<lfloor>y\<rfloor>; r = y - of_int f in
      if r < 1 / 2 then f
      else if 1 / 2 < r then f + 1
      else if even f then f else f + 1)"

definition f64_round :: "real \<Rightarrow> real" where
  "f64_round x =
     (if x = 0 then 0
      else let e = max \<lfloor>log 2 \<bar>x\<bar>\<rfloor> (- 1022);
               ulp = 2 powr (of_int e - 52)
           in of_int (round_half_even (x / ulp)) * ulp)"

definition decay_function_f64 :: "real \<Rightarrow> int \<Rightarrow> int \<Rightarrow> real result" where
  "decay_function_f64 param t num_iters =
     (let half = f64_round (real_of_int num_iters / 2) in
      if half = 0 then Inl ZeroDivisionError
      else let q = f64_round (1 + f64_round (f64_round (real_of_int t) / half)) in
        if q = 0 then Inl ZeroDivisionError else Inr (f64_round (param / q)))"

definition kernel_denominator_f64 :: "real \<Rightarrow> real" where
  "kernel_denominator_f64 sigma =
     f64_round (f64_round (f64_round (2 * f64_round pi) * sigma) * sigma)"

section \<open>Properties of the decay schedule\<close>

lemma decay_function_defined:
  assumes "1 \<le> num_iters" and "0 \<le> t"
  shows "decay_function param t num_iters =
           Inr (param / (1 + real_of_int t / (real_of_int num_iters / 2)))"
proof -
  have h: "real_of_int num_iters / 2 > 0"
    using assms(1) by simp
  have "real_of_int t / (real_of_int num_iters / 2) \<ge> 0"
    using assms(2) h by simp
  then have "1 + real_of_int t / (real_of_int num_iters / 2) > 0"
    by linarith
  with h show ?thesis
    by (simp add: decay_function_def Let_def)
qed

lemma decay_denominator_ge_one:
  assumes "1 \<le> num_iters" and "0 \<le> t"
  shows "1 \<le> 1 + real_of_int t / (real_of_int num_iters / 2)"
  using assms by simp

lemma decay_function_positive:
  assumes "0 < param" and "1 \<le> num_iters" and "0 \<le> t"
  shows "\<exists>s. decay_function param t num_iters = Inr s \<and> 0 < s"
proof -
  have "0 < 1 + real_of_int t / (real_of_int num_iters / 2)"
    using decay_denominator_ge_one [OF assms(2,3)] by linarith
  then have "0 < param / (1 + real_of_int t / (real_of_int num_iters / 2))"
    using assms(1) by simp
  then show ?thesis
    using decay_function_defined [OF assms(2,3)] by simp
qed

text \<open>
  C6. For \<open>param > 0\<close>, \<open>num_iters \<ge> 1\<close> and iteration indices \<open>0 \<le> t1 \<le> t2\<close>,
  \<open>decay_function\<close> does not raise and returns \<open>param / (1 + t / (num_iters / 2))\<close>;
  the value at \<open>t1\<close> is at least the value at \<open>t2\<close>; the value at \<open>t = 0\<close> is
  \<open>param\<close> itself; and \<open>num_iters = 1\<close> does not raise either.
\<close>

theorem decay_function_contract:
  assumes "0 < param" and "1 \<le> num_iters" and "0 \<le> t1" and "t1 \<le> t2"
  shows "decay_function param t1 num_iters =
           Inr (param / (1 + real_of_int t1 / (real_of_int num_iters / 2)))
       \<and> decay_function param t2 num_iters =
           Inr (param / (1 + real_of_int t2 / (real_of_int num_iters / 2)))
       \<and> param / (1 + real_of_int t2 / (real_of_int num_iters / 2))
           \<le> param / (1 + real_of_int t1 / (real_of_int num_iters / 2))
       \<and> decay_function param 0 num_iters = Inr param
       \<and> decay_function param t1 1 = Inr (param / (1 + real_of_int t1 / (1 / 2)))"
proof -
  have t2: "0 \<le> t2" using assms(3,4) by simp
  have h: "real_of_int num_iters / 2 > 0" using assms(2) by simp
  have q1: "0 < 1 + real_of_int t1 / (real_of_int num_iters / 2)"
    using decay_denominator_ge_one [OF assms(2,3)] by linarith
  have "real_of_int t1 / (real_of_int num_iters / 2)
          \<le> real_of_int t2 / (real_of_int num_iters / 2)"
    using assms(4) h by (simp add: divide_right_mono)
  then have q12: "1 + real_of_int t1 / (real_of_int num_iters / 2)
          \<le> 1 + real_of_int t2 / (real_of_int num_iters / 2)"
    by simp
  have mono: "param / (1 + real_of_int t2 / (real_of_int num_iters / 2))
          \<le> param / (1 + real_of_int t1 / (real_of_int num_iters / 2))"
    using assms(1) q1 q12 by (intro divide_left_mono) (auto intro: mult_pos_pos)
  have zero: "decay_function param 0 num_iters = Inr param"
    using decay_function_defined [OF assms(2), of 0 param] by simp
  have one: "decay_function param t1 1 = Inr (param / (1 + real_of_int t1 / (1 / 2)))"
    using decay_function_defined [of 1 t1 param] assms(3) by simp
  show ?thesis
    using decay_function_defined [OF assms(2,3), of param]
      decay_function_defined [OF assms(2) t2, of param] mono zero one
    by simp
qed

theorem decay_function_contract_witness:
  "decay_function 1 0 4 = Inr 1
 \<and> decay_function 1 2 4 = Inr (1 / 2)
 \<and> (1::real) / 2 \<le> 1
 \<and> decay_function 1 0 1 = Inr 1"
  using decay_function_contract [of 1 4 0 2] decay_function_contract [of 1 1 0 0]
  by simp

section \<open>Properties of the nearest-prototype search\<close>

subsection \<open>The first minimum of a scan\<close>

lemma argmin_from_scan:
  assumes "best < length pre" and "v = pre ! best"
    and "\<forall>k<length pre. v \<le> pre ! k" and "\<forall>k<best. v < pre ! k"
  shows "argmin_from xs (length pre) best v < length (pre @ xs)
       \<and> (\<forall>k<length (pre @ xs). (pre @ xs) ! argmin_from xs (length pre) best v \<le> (pre @ xs) ! k)
       \<and> (\<forall>k<argmin_from xs (length pre) best v.
             (pre @ xs) ! argmin_from xs (length pre) best v < (pre @ xs) ! k)"
  using assms
proof (induction xs arbitrary: pre best v)
  case Nil
  then show ?case by simp
next
  case (Cons x xs)
  show ?case
  proof (cases "x < v")
    case True
    have a: "length pre < length (pre @ [x])" by simp
    have b: "x = (pre @ [x]) ! length pre" by simp
    have c: "\<forall>k<length (pre @ [x]). x \<le> (pre @ [x]) ! k"
      using True Cons.prems(3) by (auto simp: nth_append less_Suc_eq)
    have d: "\<forall>k<length pre. x < (pre @ [x]) ! k"
      using True Cons.prems(3) by (auto simp: nth_append)
    from Cons.IH [of "length pre" "pre @ [x]" x, OF a b c d] True
    show ?thesis by simp
  next
    case False
    have a: "best < length (pre @ [x])" using Cons.prems(1) by simp
    have b: "v = (pre @ [x]) ! best" using Cons.prems(1,2) by (simp add: nth_append)
    have c: "\<forall>k<length (pre @ [x]). v \<le> (pre @ [x]) ! k"
      using False Cons.prems(3) by (auto simp: nth_append less_Suc_eq)
    have d: "\<forall>k<best. v < (pre @ [x]) ! k"
      using Cons.prems(1,4) by (auto simp: nth_append)
    from Cons.IH [of best "pre @ [x]" v, OF a b c d] False
    show ?thesis by simp
  qed
qed

lemma argmin_from_first_min:
  "argmin_from xs 1 0 x < length (x # xs)
   \<and> (\<forall>k<length (x # xs). (x # xs) ! argmin_from xs 1 0 x \<le> (x # xs) ! k)
   \<and> (\<forall>k<argmin_from xs 1 0 x. (x # xs) ! argmin_from xs 1 0 x < (x # xs) ! k)"
  using argmin_from_scan [of 0 "[x]" x xs] by simp

lemma length_ravel: "length (ravel a) = m_rows a * m_cols a"
  by (simp add: ravel_def)

lemma nth_ravel:
  "i < m_rows a * m_cols a \<Longrightarrow> ravel a ! i = m_at a (i div m_cols a) (i mod m_cols a)"
  by (simp add: ravel_def)

lemma np_argmin_first_min:
  assumes "0 < m_rows a * m_cols a"
  shows "\<exists>i. np_argmin a = Inr i \<and> i < m_rows a * m_cols a
           \<and> (\<forall>k<m_rows a * m_cols a. ravel a ! i \<le> ravel a ! k)
           \<and> (\<forall>k<i. ravel a ! i < ravel a ! k)"
proof -
  from assms have "ravel a \<noteq> []"
    using length_ravel [of a] by auto
  then obtain x xs where r: "ravel a = x # xs"
    by (cases "ravel a") auto
  have l: "length (x # xs) = m_rows a * m_cols a"
    using length_ravel [of a] r by simp
  show ?thesis
    using argmin_from_first_min [of xs x] l
    by (simp add: np_argmin_def r del: length_Cons)
qed

lemma np_argmin_empty:
  assumes "m_rows a * m_cols a = 0"
  shows "np_argmin a = Inl ValueError"
proof -
  have "length (ravel a) = 0"
    using assms length_ravel [of a] by simp
  then have "ravel a = []" by simp
  then show ?thesis by (simp add: np_argmin_def)
qed

subsection \<open>Broadcasting the sample\<close>

lemma broadcast_dim_same [simp]: "broadcast_dim n n = Inr n"
  by (simp add: broadcast_dim_def)

lemma broadcast_dim_fails:
  "(\<exists>e. broadcast_dim m n = Inl e) \<longleftrightarrow> m \<noteq> n \<and> m \<noteq> 1 \<and> n \<noteq> 1"
  by (simp add: broadcast_dim_def)

lemma bidx_in_range: "i < n \<Longrightarrow> bidx n i = i"
  by (auto simp: bidx_def)

lemma np_subtract_shape:
  assumes "np_subtract s w = Inr diff"
  shows "num_x diff = num_x w" and "num_y diff = num_y w"
  using assms by (auto simp: np_subtract_def split: sum.splits)

lemma np_subtract_fails:
  "(\<exists>e. np_subtract s w = Inl e) \<longleftrightarrow>
     length s \<noteq> num_chans w \<and> length s \<noteq> 1 \<and> num_chans w \<noteq> 1"
  using broadcast_dim_fails [of "length s" "num_chans w"]
  by (auto simp: np_subtract_def split: sum.splits)

lemma np_subtract_same:
  assumes "length s = num_chans w"
  shows "\<exists>diff. np_subtract s w = Inr diff \<and> num_x diff = num_x w \<and> num_y diff = num_y w
           \<and> num_chans diff = num_chans w
           \<and> (\<forall>x y k. k < num_chans w \<longrightarrow> g_at diff x y k = s ! k - g_at w x y k)"
  using assms by (auto simp: np_subtract_def bidx_def)

lemma norm_of_diff:
  assumes "length s = num_chans w" and "np_subtract s w = Inr diff"
  shows "m_at (np_linalg_norm diff) x y = euclidean_distance s w x y"
proof -
  from np_subtract_same [OF assms(1)] assms(2)
  have c: "num_chans diff = num_chans w"
    and v: "\<And>k. k < num_chans w \<Longrightarrow> g_at diff x y k = s ! k - g_at w x y k"
    by auto
  have "sum_list (map (\<lambda>k. (g_at diff x y k)\<^sup>2) [0..<num_chans w])
        = sum_list (map (\<lambda>k. (s ! k - g_at w x y k)\<^sup>2) [0..<num_chans w])"
    using v by (intro arg_cong [where f = sum_list] map_cong) auto
  also have "\<dots> = (\<Sum>k<num_chans w. (s ! k - g_at w x y k)\<^sup>2)"
    by (simp add: interv_sum_list_conv_sum_set_nat atLeast0LessThan)
  finally show ?thesis
    by (simp add: np_linalg_norm_def euclidean_distance_def c)
qed

subsection \<open>The winning coordinate\<close>

lemma winner_of_diff:
  assumes "np_subtract s w = Inr diff" and "0 < num_x w * num_y w"
  shows "\<exists>i. winner s w = Inr (i div num_y w, i mod num_y w) \<and> i < num_x w * num_y w
           \<and> (\<forall>k<num_x w * num_y w.
                 m_at (np_linalg_norm diff) (i div num_y w) (i mod num_y w)
                   \<le> m_at (np_linalg_norm diff) (k div num_y w) (k mod num_y w))
           \<and> (\<forall>k<i. m_at (np_linalg_norm diff) (i div num_y w) (i mod num_y w)
                   < m_at (np_linalg_norm diff) (k div num_y w) (k mod num_y w))"
proof -
  let ?a = "np_linalg_norm diff"
  have r: "m_rows ?a = num_x w" and c: "m_cols ?a = num_y w"
    using np_subtract_shape [OF assms(1)] by (simp_all add: np_linalg_norm_def)
  have pos: "0 < m_rows ?a * m_cols ?a"
    using assms(2) r c by simp
  from np_argmin_first_min [OF pos] obtain i where
    i: "np_argmin ?a = Inr i" "i < m_rows ?a * m_cols ?a"
       "\<forall>k<m_rows ?a * m_cols ?a. ravel ?a ! i \<le> ravel ?a ! k"
       "\<forall>k<i. ravel ?a ! i < ravel ?a ! k"
    by blast
  have w: "winner s w = Inr (i div num_y w, i mod num_y w)"
    using i(1,2) assms(1) r c by (simp add: winner_def Let_def np_unravel_index_def)
  have le: "\<forall>k<num_x w * num_y w.
                 m_at ?a (i div num_y w) (i mod num_y w)
                   \<le> m_at ?a (k div num_y w) (k mod num_y w)"
  proof (intro allI impI)
    fix k assume k: "k < num_x w * num_y w"
    then have "ravel ?a ! i \<le> ravel ?a ! k" using i(3) r c by simp
    then show "m_at ?a (i div num_y w) (i mod num_y w)
                   \<le> m_at ?a (k div num_y w) (k mod num_y w)"
      using nth_ravel [of i ?a] nth_ravel [of k ?a] i(2) k r c by simp
  qed
  have lt: "\<forall>k<i. m_at ?a (i div num_y w) (i mod num_y w)
                   < m_at ?a (k div num_y w) (k mod num_y w)"
  proof (intro allI impI)
    fix k assume k: "k < i"
    then have "ravel ?a ! i < ravel ?a ! k" using i(4) by simp
    moreover have "k < m_rows ?a * m_cols ?a" using k i(2) by simp
    ultimately show "m_at ?a (i div num_y w) (i mod num_y w)
                   < m_at ?a (k div num_y w) (k mod num_y w)"
      using nth_ravel [of i ?a] nth_ravel [of k ?a] i(2) r c by simp
  qed
  show ?thesis using w i(2) r c le lt by auto
qed

lemma winner_empty_grid:
  assumes "num_x w * num_y w = 0"
  shows "\<exists>e. winner s w = Inl e"
proof (cases "np_subtract s w")
  case (Inl e)
  then show ?thesis by (simp add: winner_def)
next
  case (Inr diff)
  have "m_rows (np_linalg_norm diff) * m_cols (np_linalg_norm diff) = 0"
    using np_subtract_shape [OF Inr] assms by (simp add: np_linalg_norm_def)
  from np_argmin_empty [OF this] show ?thesis
    using Inr by (simp add: winner_def Let_def)
qed

lemma flat_index_order:
  fixes x y x' y' n :: nat
  assumes "y < n" and "y' < n" and "x * n + y \<le> x' * n + y'"
  shows "x < x' \<or> (x = x' \<and> y \<le> y')"
proof (cases "x' < x")
  case True
  then have "Suc x' \<le> x" by simp
  then have "Suc x' * n \<le> x * n" by (rule mult_le_mono1)
  then have "x' * n + n \<le> x * n" by simp
  with assms show ?thesis by linarith
next
  case False
  then show ?thesis using assms by (cases "x = x'") auto
qed

lemma winner_nearest:
  assumes "length s = num_chans w" and "1 \<le> num_x w" and "1 \<le> num_y w"
  shows "\<exists>x y. winner s w = Inr (x, y) \<and> x < num_x w \<and> y < num_y w
         \<and> (\<forall>x' y'. x' < num_x w \<and> y' < num_y w \<longrightarrow>
                euclidean_distance s w x y \<le> euclidean_distance s w x' y')
         \<and> (\<forall>x' y'. x' < num_x w \<and> y' < num_y w
                \<and> euclidean_distance s w x' y' = euclidean_distance s w x y \<longrightarrow>
                x * num_y w + y \<le> x' * num_y w + y')"
proof -
  let ?X = "num_x w" and ?Y = "num_y w"
  from np_subtract_same [OF assms(1)] obtain diff where d: "np_subtract s w = Inr diff"
    by blast
  have pos: "0 < ?X * ?Y" using assms(2,3) by simp
  note n = norm_of_diff [OF assms(1) d]
  from winner_of_diff [OF d pos] obtain i where
    i: "winner s w = Inr (i div ?Y, i mod ?Y)" "i < ?X * ?Y"
       "\<forall>k<?X * ?Y. euclidean_distance s w (i div ?Y) (i mod ?Y)
                \<le> euclidean_distance s w (k div ?Y) (k mod ?Y)"
       "\<forall>k<i. euclidean_distance s w (i div ?Y) (i mod ?Y)
                < euclidean_distance s w (k div ?Y) (k mod ?Y)"
    unfolding n by blast
  have Y: "0 < ?Y" using assms(3) by simp
  have bx: "i div ?Y < ?X"
    using i(2) by (simp add: less_mult_imp_div_less)
  have by': "i mod ?Y < ?Y" using Y by simp
  have flat: "\<And>x' y'. x' < ?X \<Longrightarrow> y' < ?Y \<Longrightarrow> x' * ?Y + y' < ?X * ?Y
       \<and> (x' * ?Y + y') div ?Y = x' \<and> (x' * ?Y + y') mod ?Y = y'"
  proof -
    fix x' y' assume a: "x' < ?X" "y' < ?Y"
    have "x' * ?Y + y' < x' * ?Y + ?Y" using a(2) by simp
    also have "\<dots> = Suc x' * ?Y" by simp
    also have "\<dots> \<le> ?X * ?Y" using a(1) by (intro mult_le_mono1) simp
    finally show "x' * ?Y + y' < ?X * ?Y
       \<and> (x' * ?Y + y') div ?Y = x' \<and> (x' * ?Y + y') mod ?Y = y'"
      using a(2) by simp
  qed
  have le: "\<forall>x' y'. x' < ?X \<and> y' < ?Y \<longrightarrow>
                euclidean_distance s w (i div ?Y) (i mod ?Y) \<le> euclidean_distance s w x' y'"
  proof (intro allI impI)
    fix x' y' assume a: "x' < ?X \<and> y' < ?Y"
    from flat [of x' y'] a i(3) [rule_format, of "x' * ?Y + y'"]
    show "euclidean_distance s w (i div ?Y) (i mod ?Y) \<le> euclidean_distance s w x' y'"
      by simp
  qed
  have first: "\<forall>x' y'. x' < ?X \<and> y' < ?Y
                \<and> euclidean_distance s w x' y' = euclidean_distance s w (i div ?Y) (i mod ?Y) \<longrightarrow>
                (i div ?Y) * ?Y + i mod ?Y \<le> x' * ?Y + y'"
  proof (intro allI impI)
    fix x' y' assume a: "x' < ?X \<and> y' < ?Y
                \<and> euclidean_distance s w x' y' = euclidean_distance s w (i div ?Y) (i mod ?Y)"
    show "(i div ?Y) * ?Y + i mod ?Y \<le> x' * ?Y + y'"
    proof (rule ccontr)
      assume "\<not> (i div ?Y) * ?Y + i mod ?Y \<le> x' * ?Y + y'"
      then have "x' * ?Y + y' < i" by simp
      from i(4) [rule_format, OF this] flat [of x' y'] a show False by simp
    qed
  qed
  show ?thesis using i(1) bx by' le first by blast
qed

lemma winner_tie_grid: "winner [1] tie_grid = Inr (0, 0)"
  by (simp add: winner_def tie_grid_def np_subtract_def broadcast_dim_def bidx_def
      np_linalg_norm_def np_argmin_def ravel_def np_unravel_index_def Let_def upt_rec)

lemma winner_two_neuron_grid: "winner [0, 1] two_neuron_grid = Inr (1, 0)"
  by (simp add: winner_def two_neuron_grid_def np_subtract_def broadcast_dim_def bidx_def
      np_linalg_norm_def np_argmin_def ravel_def np_unravel_index_def Let_def upt_rec)

lemma winner_broadcast: "winner [5] two_neuron_grid = Inr (0, 0)"
  by (simp add: winner_def two_neuron_grid_def np_subtract_def broadcast_dim_def bidx_def
      np_linalg_norm_def np_argmin_def ravel_def np_unravel_index_def Let_def upt_rec)

text \<open>
  C5. For a sample of length \<open>C\<close> and a grid of shape \<open>(X, Y, C)\<close> with at least one
  neuron, \<open>winner\<close> returns a coordinate \<open>(x, y)\<close> inside the grid whose prototype is
  at minimal Euclidean distance from the sample; every neuron at that same distance has
  a flat row-major index \<open>x' * Y + y'\<close> that is not smaller, that is, \<open>(x, y)\<close> is the
  lexicographically smallest among them. \<open>winner\<close> is a function of its two arguments,
  so repeated calls return the same coordinate.
\<close>

theorem winner_nearest_first:
  assumes "length sample = num_chans weights" and "1 \<le> num_x weights" and "1 \<le> num_y weights"
  shows "\<exists>x y. winner sample weights = Inr (x, y) \<and> x < num_x weights \<and> y < num_y weights
         \<and> (\<forall>x' y'. x' < num_x weights \<and> y' < num_y weights \<longrightarrow>
                euclidean_distance sample weights x y \<le> euclidean_distance sample weights x' y')
         \<and> (\<forall>x' y'. x' < num_x weights \<and> y' < num_y weights
                \<and> euclidean_distance sample weights x' y' = euclidean_distance sample weights x y \<longrightarrow>
                x * num_y weights + y \<le> x' * num_y weights + y'
                \<and> (x < x' \<or> (x = x' \<and> y \<le> y')))"
proof -
  from winner_nearest [OF assms] obtain x y where
    w: "winner sample weights = Inr (x, y)" "x < num_x weights" "y < num_y weights"
    and le: "\<forall>x' y'. x' < num_x weights \<and> y' < num_y weights \<longrightarrow>
                euclidean_distance sample weights x y \<le> euclidean_distance sample weights x' y'"
    and first: "\<forall>x' y'. x' < num_x weights \<and> y' < num_y weights
                \<and> euclidean_distance sample weights x' y' = euclidean_distance sample weights x y \<longrightarrow>
                x * num_y weights + y \<le> x' * num_y weights + y'"
    by blast
  have "\<forall>x' y'. x' < num_x weights \<and> y' < num_y weights
                \<and> euclidean_distance sample weights x' y' = euclidean_distance sample weights x y \<longrightarrow>
                x * num_y weights + y \<le> x' * num_y weights + y'
                \<and> (x < x' \<or> (x = x' \<and> y \<le> y'))"
  proof (intro allI impI)
    fix x' y'
    assume a: "x' < num_x weights \<and> y' < num_y weights
                \<and> euclidean_distance sample weights x' y' = euclidean_distance sample weights x y"
    then have f: "x * num_y weights + y \<le> x' * num_y weights + y'"
      using first by blast
    from flat_index_order [OF w(3) _ f] a
    show "x * num_y weights + y \<le> x' * num_y weights + y'
                \<and> (x < x' \<or> (x = x' \<and> y \<le> y'))"
      using f by blast
  qed
  with w le show ?thesis by blast
qed

theorem winner_nearest_first_witness:
  "length [1::real] = num_chans tie_grid \<and> 1 \<le> num_x tie_grid \<and> 1 \<le> num_y tie_grid
   \<and> winner [1] tie_grid = Inr (0, 0)
   \<and> euclidean_distance [1] tie_grid 1 1 = euclidean_distance [1] tie_grid 0 0
   \<and> euclidean_distance [1] tie_grid 0 0 \<le> euclidean_distance [1] tie_grid 1 0"
proof -
  have h: "length [1::real] = num_chans tie_grid" "1 \<le> num_x tie_grid" "1 \<le> num_y tie_grid"
    by (simp_all add: tie_grid_def)
  from winner_nearest_first [OF h] obtain x y where
    w: "winner [1] tie_grid = Inr (x, y)"
    and le: "\<forall>x' y'. x' < num_x tie_grid \<and> y' < num_y tie_grid \<longrightarrow>
                euclidean_distance [1] tie_grid x y \<le> euclidean_distance [1] tie_grid x' y'"
    by blast
  have xy: "x = 0" "y = 0" using w winner_tie_grid by simp_all
  have "euclidean_distance [1] tie_grid 0 0 \<le> euclidean_distance [1] tie_grid 1 0"
    using le [rule_format, of 1 0] xy by (simp add: tie_grid_def)
  moreover have "euclidean_distance [1] tie_grid 1 1 = euclidean_distance [1] tie_grid 0 0"
    by (simp add: euclidean_distance_def tie_grid_def)
  ultimately show ?thesis using h w xy by simp
qed

text \<open>
  C10. For a sample of length \<open>C\<close> and a grid of shape \<open>(X, Y, C)\<close> with \<open>X \<ge> 1\<close> and
  \<open>Y \<ge> 1\<close>, \<open>winner\<close> returns a pair of natural numbers \<open>(x, y)\<close> with \<open>x < X\<close> and
  \<open>y < Y\<close>.
\<close>

theorem winner_in_bounds:
  assumes "length sample = num_chans weights" and "1 \<le> num_x weights" and "1 \<le> num_y weights"
  shows "\<exists>x y. winner sample weights = Inr (x, y) \<and> x < num_x weights \<and> y < num_y weights"
  using winner_nearest [OF assms] by blast

theorem winner_in_bounds_witness:
  "length [0, 1::real] = num_chans two_neuron_grid
   \<and> 1 \<le> num_x two_neuron_grid \<and> 1 \<le> num_y two_neuron_grid
   \<and> winner [0, 1] two_neuron_grid = Inr (1, 0)
   \<and> (1::nat) < num_x two_neuron_grid \<and> (0::nat) < num_y two_neuron_grid"
proof -
  have h: "length [0, 1::real] = num_chans two_neuron_grid"
    "1 \<le> num_x two_neuron_grid" "1 \<le> num_y two_neuron_grid"
    by (simp_all add: two_neuron_grid_def)
  from winner_in_bounds [OF h] obtain x y where
    "winner [0, 1] two_neuron_grid = Inr (x, y)" "x < num_x two_neuron_grid"
    "y < num_y two_neuron_grid"
    by blast
  then show ?thesis using h winner_two_neuron_grid by simp
qed

text \<open>
  C8, as stated, fails: a sample of length 1 is broadcast against a grid of two
  channels, and \<open>winner\<close> returns a coordinate although the channel counts differ.
\<close>

theorem winner_channel_mismatch_counterexample:
  "length [5::real] \<noteq> num_chans two_neuron_grid \<and> winner [5] two_neuron_grid = Inr (0, 0)"
  using winner_broadcast by (simp add: two_neuron_grid_def)

lemma winner_fails_iff:
  "(\<exists>e. winner sample weights = Inl e) \<longleftrightarrow>
     (length sample \<noteq> num_chans weights \<and> length sample \<noteq> 1 \<and> num_chans weights \<noteq> 1)
     \<or> num_x weights = 0 \<or> num_y weights = 0"
proof (cases "np_subtract sample weights")
  case (Inl e)
  then have "\<exists>e. winner sample weights = Inl e" by (simp add: winner_def)
  moreover have "length sample \<noteq> num_chans weights \<and> length sample \<noteq> 1 \<and> num_chans weights \<noteq> 1"
    using np_subtract_fails [of sample weights] Inl by blast
  ultimately show ?thesis by blast
next
  case (Inr diff)
  then have ok: "\<not> (length sample \<noteq> num_chans weights \<and> length sample \<noteq> 1 \<and> num_chans weights \<noteq> 1)"
    using np_subtract_fails [of sample weights] by auto
  show ?thesis
  proof (cases "num_x weights * num_y weights = 0")
    case True
    from winner_empty_grid [OF True] True show ?thesis by auto
  next
    case False
    then have "0 < num_x weights * num_y weights" by simp
    from winner_of_diff [OF Inr this] obtain i where
      "winner sample weights = Inr (i div num_y weights, i mod num_y weights)" by blast
    then show ?thesis using ok False by auto
  qed
qed

section \<open>Properties of the neighborhood update\<close>

lemma update_on_mesh:
  assumes "length sample = num_chans weights"
    and "wx < num_x weights" and "wy < num_y weights"
    and "np_meshgrid (num_x weights) (num_y weights) = (x_mesh, y_mesh)"
  shows "\<exists>new. update sample weights (wx, wy) sigma learning_rate x_mesh y_mesh = Inr new
         \<and> num_x new = num_x weights \<and> num_y new = num_y weights
         \<and> num_chans new = num_chans weights
         \<and> (\<forall>x y k. x < num_x weights \<and> y < num_y weights \<and> k < num_chans weights \<longrightarrow>
               g_at new x y k =
                 g_at weights x y k
                 + neighborhood_weight sigma learning_rate (wx, wy) x y
                     * (sample ! k - g_at weights x y k))"
proof -
  have xm: "x_mesh = \<lparr>m_rows = num_y weights, m_cols = num_x weights, m_at = \<lambda>i j. real j\<rparr>"
    and ym: "y_mesh = \<lparr>m_rows = num_y weights, m_cols = num_x weights, m_at = \<lambda>i j. real i\<rparr>"
    using assms(4) by (simp_all add: np_meshgrid_def)
  have d: "kernel_denominator sigma = 2 * pi * sigma\<^sup>2"
    by (simp add: kernel_denominator_def power2_eq_square)
  show ?thesis
    using assms(1,2,3)
    by (simp add: update_def xm ym mat_index_def mat_T_def mat_map_def mat_multiply_def
        np_subtract_def np_einsum_def np_add_def Let_def bidx_in_range d
        neighborhood_weight_def)
qed

text \<open>
  C2. For a grid of shape \<open>(X, Y, C)\<close>, a sample of length \<open>C\<close>, a winning coordinate
  \<open>(wx, wy)\<close> with \<open>wx < X\<close> and \<open>wy < Y\<close>, \<open>sigma > 0\<close> and the coordinate mesh of
  \<open>(X, Y)\<close>, \<open>update\<close> returns a grid of the same shape whose value at every neuron
  \<open>(x, y)\<close> and channel \<open>k\<close> is \<open>old + weight(x, y) * (sample - old)\<close>, with
  \<open>weight(x, y) = exp(-(x - wx)^2 / d) * exp(-(y - wy)^2 / d) * learning_rate\<close> and
  \<open>d = 2 * pi * sigma^2\<close>.
\<close>

theorem update_gaussian_blend:
  assumes "length sample = num_chans weights"
    and "wx < num_x weights" and "wy < num_y weights" and "0 < sigma"
    and "np_meshgrid (num_x weights) (num_y weights) = (x_mesh, y_mesh)"
  shows "\<exists>new. update sample weights (wx, wy) sigma learning_rate x_mesh y_mesh = Inr new
         \<and> num_x new = num_x weights \<and> num_y new = num_y weights
         \<and> num_chans new = num_chans weights
         \<and> (\<forall>x y k. x < num_x weights \<and> y < num_y weights \<and> k < num_chans weights \<longrightarrow>
               g_at new x y k =
                 g_at weights x y k
                 + neighborhood_weight sigma learning_rate (wx, wy) x y
                     * (sample ! k - g_at weights x y k))"
  using update_on_mesh [OF assms(1,2,3,5)] by blast

theorem update_gaussian_blend_witness:
  "length [1, 0::real] = num_chans two_neuron_grid
   \<and> 0 < num_x two_neuron_grid \<and> 0 < num_y two_neuron_grid \<and> (0::real) < 1
   \<and> (\<exists>new. update [1, 0] two_neuron_grid (0, 0) 1 (1 / 2)
               (fst (np_meshgrid 2 1)) (snd (np_meshgrid 2 1)) = Inr new
         \<and> g_at new 1 0 0 = neighborhood_weight 1 (1 / 2) (0, 0) 1 0
         \<and> g_at new 0 0 0 = 1)"
proof -
  have h: "length [1, 0::real] = num_chans two_neuron_grid"
    "0 < num_x two_neuron_grid" "0 < num_y two_neuron_grid" "(0::real) < 1"
    by (simp_all add: two_neuron_grid_def)
  have m: "np_meshgrid (num_x two_neuron_grid) (num_y two_neuron_grid)
             = (fst (np_meshgrid 2 1), snd (np_meshgrid 2 1))"
    by (simp add: two_neuron_grid_def)
  from update_gaussian_blend [OF h m, of "1 / 2"] obtain new where
    u: "update [1, 0] two_neuron_grid (0, 0) 1 (1 / 2)
               (fst (np_meshgrid 2 1)) (snd (np_meshgrid 2 1)) = Inr new"
    and v: "\<forall>x y k. x < num_x two_neuron_grid \<and> y < num_y two_neuron_grid
               \<and> k < num_chans two_neuron_grid \<longrightarrow>
               g_at new x y k =
                 g_at two_neuron_grid x y k
                 + neighborhood_weight 1 (1 / 2) (0, 0) x y
                     * ([1, 0] ! k - g_at two_neuron_grid x y k)"
    by blast
  have "g_at new 1 0 0 = neighborhood_weight 1 (1 / 2) (0, 0) 1 0"
    using v [rule_format, of 1 0 0] by (simp add: two_neuron_grid_def)
  moreover have "g_at new 0 0 0 = 1"
    using v [rule_format, of 0 0 0] by (simp add: two_neuron_grid_def)
  ultimately show ?thesis using h u by blast
qed

section \<open>Properties of training\<close>

subsection \<open>The loop and the steps of the specification\<close>

lemma train_loop_snoc:
  "train_loop pm sigma lr T xm ym (steps @ [(t, row)]) w =
     (case train_loop pm sigma lr T xm ym steps w of
        Inl e \<Rightarrow> Inl e
      | Inr w' \<Rightarrow> train_step pm sigma lr T xm ym t row w')"
proof (induction steps arbitrary: w)
  case Nil
  show ?case by (simp split: sum.splits)
next
  case (Cons a steps)
  obtain t' row' where a: "a = (t', row')" by (cases a)
  show ?case by (simp add: a Cons.IH split: sum.splits)
qed

lemma iter_rows_Suc:
  "iter_rows (int (Suc k)) n = iter_rows (int k) n @ [k mod n]"
proof -
  have "nat (int (Suc k)) = Suc k" by (rule nat_int)
  then show ?thesis by (simp add: iter_rows_def del: of_nat_Suc)
qed

lemma length_iter_rows: "length (iter_rows (int k) n) = k"
  by (simp add: iter_rows_def)

lemma nth_iter_rows: "t < k \<Longrightarrow> iter_rows (int k) n ! t = t mod n"
  by (simp add: iter_rows_def)

lemma enumerate_iter_rows_Suc:
  "enumerate 0 (iter_rows (int (Suc k)) n) = enumerate 0 (iter_rows (int k) n) @ [(k, k mod n)]"
  by (simp add: iter_rows_Suc enumerate_append_eq length_iter_rows del: of_nat_Suc)

lemma iter_rows_empty:
  assumes "num_passes \<le> 0 \<or> n = 0"
  shows "iter_rows (num_passes * int n) n = []"
proof -
  have "num_passes * int n \<le> 0"
    using assms by (auto simp: mult_le_0_iff)
  then show ?thesis by (simp add: iter_rows_def)
qed

lemma num_iters_nat:
  assumes "1 \<le> num_passes"
  shows "num_passes * int n = int (nat num_passes * n)"
  using assms by simp

lemma filter_eq_upt: "filter (\<lambda>p. p = r) [0..<n] = (if r < n then [r] else [])"
  by (induction n) auto

lemma df_loc_default_index:
  assumes "default_index pm" and "r < n_rows pm"
  shows "df_loc pm (int r) = Inr (Row (row_values pm r))"
proof -
  have "filter (\<lambda>p. df_index pm p = int r) [0..<n_rows pm]
          = filter (\<lambda>p. p = r) [0..<n_rows pm]"
    using assms(1) by (intro filter_cong) (auto simp: default_index_def)
  then have "filter (\<lambda>p. df_index pm p = int r) [0..<n_rows pm] = [r]"
    using assms(2) by (simp add: filter_eq_upt)
  then show ?thesis by (simp add: df_loc_def)
qed

lemma train_step_eq_spec_step:
  assumes "1 \<le> n_rows pm" and "1 \<le> T"
    and "np_meshgrid X Y = (xm, ym)" and "default_index pm"
  shows "train_step pm sigma lr (int T) xm ym t (t mod n_rows pm) w
           = spec_step pm X Y sigma lr T t w"
proof -
  have r: "t mod n_rows pm < n_rows pm" using assms(1) by simp
  have T: "1 \<le> int T" using assms(2) by simp
  have t: "0 \<le> int t" by simp
  note d = decay_function_defined [OF T t]
  note l = df_loc_default_index [OF assms(4) r]
  show ?thesis
    using assms(3)
    by (simp add: train_step_def spec_step_def l d Let_def split: sum.splits)
qed

lemma train_loop_eq_spec:
  assumes "1 \<le> n_rows pm" and "1 \<le> T"
    and "np_meshgrid X Y = (xm, ym)" and "default_index pm"
  shows "train_loop pm sigma lr (int T) xm ym (enumerate 0 (iter_rows (int k) (n_rows pm))) w
           = spec_grid_after pm X Y sigma lr T w k"
proof (induction k)
  case 0
  show ?case by (simp add: iter_rows_def)
next
  case (Suc k)
  show ?case
    by (simp add: enumerate_iter_rows_Suc train_loop_snoc Suc.IH
        train_step_eq_spec_step [OF assms] del: of_nat_Suc split: sum.splits)
qed

lemma train_som_unfold:
  "train_som pm X Y num_passes sigma lr rand =
     train_loop pm sigma lr (num_passes * int (n_rows pm))
       (fst (np_meshgrid X Y)) (snd (np_meshgrid X Y))
       (enumerate 0 (iter_rows (num_passes * int (n_rows pm)) (n_rows pm)))
       (init_weights rand X Y (n_cols pm))"
  by (simp add: train_som_def Let_def split: prod.splits)

lemma train_som_zero_steps:
  assumes "num_passes \<le> 0 \<or> n_rows pm = 0"
  shows "train_som pm X Y num_passes sigma lr rand = Inr (init_weights rand X Y (n_cols pm))"
  by (simp add: train_som_unfold iter_rows_empty [OF assms] enumerate_simps)

subsection \<open>Training never fails on a grid with a neuron\<close>

lemma init_weights_shape:
  "num_x (init_weights rand X Y c) = X" "num_y (init_weights rand X Y c) = Y"
  "num_chans (init_weights rand X Y c) = c"
  by (simp_all add: init_weights_def Let_def)

lemma length_row_values: "length (row_values pm r) = n_cols pm"
  by (simp add: row_values_def)

lemma spec_step_succeeds:
  assumes "1 \<le> n_rows pm" and "1 \<le> T"
    and "num_x g = X" and "num_y g = Y" and "num_chans g = n_cols pm"
    and "1 \<le> X" and "1 \<le> Y"
  shows "\<exists>g'. spec_step pm X Y sigma lr T t g = Inr g'
           \<and> num_x g' = X \<and> num_y g' = Y \<and> num_chans g' = n_cols pm"
proof -
  let ?row = "row_values pm (t mod n_rows pm)"
  have T: "1 \<le> int T" using assms(2) by simp
  have t: "0 \<le> int t" by simp
  note d = decay_function_defined [OF T t]
  have len: "length ?row = num_chans g"
    using assms(5) by (simp add: length_row_values)
  from winner_nearest [OF len] assms(3,4,6,7) obtain x y where
    w: "winner ?row g = Inr (x, y)" "x < num_x g" "y < num_y g"
    by auto
  have m: "np_meshgrid (num_x g) (num_y g)
             = (fst (np_meshgrid X Y), snd (np_meshgrid X Y))"
    using assms(3,4) by simp
  let ?s = "sigma / (1 + real_of_int (int t) / (real_of_int (int T) / 2))"
  let ?l = "lr / (1 + real_of_int (int t) / (real_of_int (int T) / 2))"
  from update_on_mesh [OF len w(2,3) m, of ?s ?l] obtain g' where
    "update ?row g (x, y) ?s ?l (fst (np_meshgrid X Y)) (snd (np_meshgrid X Y)) = Inr g'"
    "num_x g' = num_x g" "num_y g' = num_y g" "num_chans g' = num_chans g"
    by blast
  then show ?thesis
    using assms(3,4,5) w(1) by (simp add: spec_step_def d Let_def)
qed

lemma spec_grid_after_succeeds:
  assumes "1 \<le> n_rows pm" and "1 \<le> T"
    and "num_x g0 = X" and "num_y g0 = Y" and "num_chans g0 = n_cols pm"
    and "1 \<le> X" and "1 \<le> Y"
  shows "\<exists>g. spec_grid_after pm X Y sigma lr T g0 k = Inr g
           \<and> num_x g = X \<and> num_y g = Y \<and> num_chans g = n_cols pm"
proof (induction k)
  case 0
  show ?case using assms(3,4,5) by simp
next
  case (Suc k)
  then obtain g where g: "spec_grid_after pm X Y sigma lr T g0 k = Inr g"
    "num_x g = X" "num_y g = Y" "num_chans g = n_cols pm"
    by blast
  from spec_step_succeeds [OF assms(1,2) g(2,3,4) assms(6,7)] g(1)
  show ?case by simp
qed

text \<open>
  On a sample matrix with the default index, of \<open>N \<ge> 1\<close> rows, and for
  \<open>num_passes \<ge> 1\<close>, the loop of \<open>train_som\<close> iterates over exactly
  \<open>T = num_passes * N\<close> pairs, the pair at position \<open>t\<close> being \<open>(t, t mod N)\<close>, and the
  result of \<open>train_som\<close> is the grid after \<open>T\<close> steps of the specification, started
  from the initial weights. With at least one neuron no step raises, and the result is
  a grid of shape \<open>(x_neurons, y_neurons, C)\<close>.
\<close>

lemma train_som_default_index:
  assumes "1 \<le> n_rows pixel_mat" and "1 \<le> num_passes"
    and "T = nat num_passes * n_rows pixel_mat" and "default_index pixel_mat"
  shows "length (enumerate 0 (iter_rows (num_passes * int (n_rows pixel_mat)) (n_rows pixel_mat))) = T
     \<and> (\<forall>t<T. enumerate 0 (iter_rows (num_passes * int (n_rows pixel_mat)) (n_rows pixel_mat)) ! t
                = (t, t mod n_rows pixel_mat))
     \<and> train_som pixel_mat x_neurons y_neurons num_passes sigma learning_rate rand
         = spec_grid_after pixel_mat x_neurons y_neurons sigma learning_rate T
             (init_weights rand x_neurons y_neurons (n_cols pixel_mat)) T
     \<and> (1 \<le> x_neurons \<and> 1 \<le> y_neurons \<longrightarrow>
          (\<exists>g. train_som pixel_mat x_neurons y_neurons num_passes sigma learning_rate rand = Inr g
              \<and> num_x g = x_neurons \<and> num_y g = y_neurons
              \<and> num_chans g = n_cols pixel_mat))"
proof -
  let ?N = "n_rows pixel_mat"
  let ?g0 = "init_weights rand x_neurons y_neurons (n_cols pixel_mat)"
  have n: "num_passes * int ?N = int T"
    using num_iters_nat [OF assms(2)] assms(3) by simp
  have T: "1 \<le> T"
    using assms(1,2,3) by (simp add: nat_le_iff Suc_le_eq)
  have len: "length (enumerate 0 (iter_rows (num_passes * int ?N) ?N)) = T"
    by (simp add: n length_iter_rows)
  have nth: "\<forall>t<T. enumerate 0 (iter_rows (num_passes * int ?N) ?N) ! t = (t, t mod ?N)"
    by (simp add: n length_iter_rows nth_enumerate_eq nth_iter_rows)
  have m: "np_meshgrid x_neurons y_neurons
             = (fst (np_meshgrid x_neurons y_neurons), snd (np_meshgrid x_neurons y_neurons))"
    by simp
  have eq: "train_som pixel_mat x_neurons y_neurons num_passes sigma learning_rate rand
         = spec_grid_after pixel_mat x_neurons y_neurons sigma learning_rate T ?g0 T"
    unfolding train_som_unfold n
    by (rule train_loop_eq_spec [OF assms(1) T m assms(4)])
  have ok: "1 \<le> x_neurons \<and> 1 \<le> y_neurons \<longrightarrow>
          (\<exists>g. train_som pixel_mat x_neurons y_neurons num_passes sigma learning_rate rand = Inr g
              \<and> num_x g = x_neurons \<and> num_y g = y_neurons
              \<and> num_chans g = n_cols pixel_mat)"
  proof
    assume xy: "1 \<le> x_neurons \<and> 1 \<le> y_neurons"
    then have x: "1 \<le> x_neurons" and y: "1 \<le> y_neurons" by simp_all
    from spec_grid_after_succeeds [OF assms(1) T init_weights_shape x y]
    show "\<exists>g. train_som pixel_mat x_neurons y_neurons num_passes sigma learning_rate rand = Inr g
              \<and> num_x g = x_neurons \<and> num_y g = y_neurons
              \<and> num_chans g = n_cols pixel_mat"
      unfolding eq by blast
  qed
  show ?thesis using len nth eq ok by blast
qed

lemma train_som_default_index_example:
  "train_som example_frame 2 1 1 1 (1 / 2) example_rand
       = spec_grid_after example_frame 2 1 1 (1 / 2) 4 (init_weights example_rand 2 1 2) 4
   \<and> (\<exists>g. train_som example_frame 2 1 1 1 (1 / 2) example_rand = Inr g
          \<and> num_x g = 2 \<and> num_y g = 1 \<and> num_chans g = 2)"
proof -
  have h: "1 \<le> n_rows example_frame" "(1::int) \<le> 1" "(4::nat) = nat 1 * n_rows example_frame"
    "default_index example_frame"
    by (simp_all add: example_frame_def default_index_def)
  have c: "n_cols example_frame = 2" by (simp add: example_frame_def)
  note t = train_som_default_index [OF h, of 2 1 1 "1 / 2" example_rand]
  have eq: "train_som example_frame 2 1 1 1 (1 / 2) example_rand
       = spec_grid_after example_frame 2 1 1 (1 / 2) 4 (init_weights example_rand 2 1 2) 4"
    using t c by simp
  have "(1::nat) \<le> 2 \<and> (1::nat) \<le> 1" by simp
  with t have "\<exists>g. train_som example_frame 2 1 1 1 (1 / 2) example_rand = Inr g
          \<and> num_x g = 2 \<and> num_y g = 1 \<and> num_chans g = n_cols example_frame"
    by blast
  then have ex: "\<exists>g. train_som example_frame 2 1 1 1 (1 / 2) example_rand = Inr g
          \<and> num_x g = 2 \<and> num_y g = 1 \<and> num_chans g = 2"
    unfolding c .
  show ?thesis using eq ex by blast
qed

lemma df_loc_shifted_frame: "df_loc shifted_frame 0 = Inl KeyError"
  by (simp add: df_loc_def shifted_frame_def upt_rec)

lemma df_loc_swapped_frame: "df_loc swapped_frame 0 = Inr (Row (row_values swapped_frame 1))"
  by (simp add: df_loc_def swapped_frame_def upt_rec)

lemma train_som_shifted_frame:
  "train_som shifted_frame 2 1 1 1 (1 / 2) example_rand = Inl KeyError"
proof -
  have "iter_rows (1 * int (n_rows shifted_frame)) (n_rows shifted_frame) = [0, 1]"
    by (simp add: iter_rows_def shifted_frame_def upt_rec)
  then have "enumerate 0 (iter_rows (1 * int (n_rows shifted_frame)) (n_rows shifted_frame))
               = [(0, 0), (1, 1)]"
    by (simp add: enumerate_simps)
  then show ?thesis
    using df_loc_shifted_frame by (simp add: train_som_unfold train_step_def)
qed

text \<open>
  C1. The claim holds of the loop as the module's comments describe it, and the code
  misses it on a sample matrix whose index is not \<open>0, ..., N - 1\<close>: the loop computes
  the position \<open>t mod N\<close> and then reads the row with that label. On the two-row matrix
  with the labels 1 and 2 and \<open>num_passes = 1\<close>, step 0 asks for the label 0 and
  \<open>train_som\<close> raises KeyError, where the two steps of the specification on rows 0 and 1
  give a grid. On the matrix with the labels 1 and 0, step 0 reads the row at position 1.
\<close>

theorem train_som_label_lookup:
  "n_rows shifted_frame = 2
   \<and> train_som shifted_frame 2 1 1 1 (1 / 2) example_rand = Inl KeyError
   \<and> (\<exists>g. spec_grid_after shifted_frame 2 1 1 (1 / 2) 2 (init_weights example_rand 2 1 2) 2
            = Inr g)
   \<and> df_loc swapped_frame 0 = Inr (Row (row_values swapped_frame 1))
   \<and> row_values swapped_frame 1 \<noteq> row_values swapped_frame 0"
proof -
  have n: "n_rows shifted_frame = 2" and c: "n_cols shifted_frame = 2"
    by (simp_all add: shifted_frame_def)
  have a: "1 \<le> n_rows shifted_frame" and b: "(1::nat) \<le> 2" and x: "(1::nat) \<le> 1"
    using n by simp_all
  have "\<exists>g. spec_grid_after shifted_frame 2 1 1 (1 / 2) 2
              (init_weights example_rand 2 1 (n_cols shifted_frame)) 2 = Inr g
          \<and> num_x g = 2 \<and> num_y g = 1 \<and> num_chans g = n_cols shifted_frame"
    by (rule spec_grid_after_succeeds [OF a b init_weights_shape b x])
  then have s: "\<exists>g. spec_grid_after shifted_frame 2 1 1 (1 / 2) 2
                  (init_weights example_rand 2 1 2) 2 = Inr g"
    unfolding c by blast
  have r: "row_values swapped_frame 1 \<noteq> row_values swapped_frame 0"
    by (simp add: row_values_def swapped_frame_def upt_rec)
  show ?thesis
    using n train_som_shifted_frame s df_loc_swapped_frame r by blast
qed

text \<open>
  C4, as stated, fails: with \<open>num_passes = 0\<close>, and with a sample matrix without rows,
  \<open>train_som\<close> raises nothing and returns the initial weights.
\<close>

theorem train_som_zero_passes_counterexample:
  "train_som example_frame 2 1 0 1 (1 / 2) example_rand = Inr (init_weights example_rand 2 1 2)
   \<and> train_som empty_frame 2 1 1 1 (1 / 2) example_rand = Inr (init_weights example_rand 2 1 2)"
proof -
  have a: "(0::int) \<le> 0 \<or> n_rows example_frame = 0" by simp
  have b: "(1::int) \<le> 0 \<or> n_rows empty_frame = 0" by (simp add: empty_frame_def)
  show ?thesis
    using train_som_zero_steps [OF a, of 2 1 1 "1 / 2" example_rand]
      train_som_zero_steps [OF b, of 2 1 1 "1 / 2" example_rand]
    by (simp add: example_frame_def empty_frame_def)
qed

text \<open>
  C4, amended. For \<open>num_passes \<le> 0\<close>, and for a sample matrix without rows, the loop of
  \<open>train_som\<close> has nothing to iterate over, and \<open>train_som\<close> returns the normalized
  initial weights without raising.
\<close>

theorem train_som_without_steps:
  assumes "num_passes \<le> 0 \<or> n_rows pixel_mat = 0"
  shows "iter_rows (num_passes * int (n_rows pixel_mat)) (n_rows pixel_mat) = []
     \<and> train_som pixel_mat x_neurons y_neurons num_passes sigma learning_rate rand
         = Inr (init_weights rand x_neurons y_neurons (n_cols pixel_mat))"
  using iter_rows_empty [OF assms] train_som_zero_steps [OF assms] by simp

theorem train_som_without_steps_witness:
  "(- 3 :: int) \<le> 0
   \<and> iter_rows (- 3 * int (n_rows example_frame)) (n_rows example_frame) = []
   \<and> train_som example_frame 2 1 (- 3) 1 (1 / 2) example_rand
         = Inr (init_weights example_rand 2 1 2)"
proof -
  have h: "(- 3 :: int) \<le> 0 \<or> n_rows example_frame = 0" by simp
  have c: "n_cols example_frame = 2" by (simp add: example_frame_def)
  from train_som_without_steps [OF h, of 2 1 1 "1 / 2" example_rand]
  show ?thesis by (simp add: c)
qed

subsection \<open>The denominator of the kernel in exact arithmetic\<close>

lemma kernel_denominator_nonzero: "0 < s \<Longrightarrow> kernel_denominator s \<noteq> 0"
  by (simp add: kernel_denominator_def)

section \<open>Properties of the kernel denominator in float64\<close>

subsection \<open>Rounding\<close>

lemma round_half_even_near: "\<bar>of_int (round_half_even y) - y\<bar> \<le> 1 / 2"
proof -
  have "of_int \<lfloor>y\<rfloor> \<le> y" "y < of_int \<lfloor>y\<rfloor> + 1"
    by linarith+
  then show ?thesis
    by (auto simp: round_half_even_def Let_def)
qed

lemma round_half_even_of_int: "round_half_even (of_int k) = k"
  by (simp add: round_half_even_def)

lemma round_half_even_small:
  assumes "0 \<le> y" and "y < 1 / 2"
  shows "round_half_even y = 0"
proof -
  have "\<lfloor>y\<rfloor> = 0" using assms by (simp add: floor_eq_iff)
  then show ?thesis using assms by (simp add: round_half_even_def)
qed

lemma two_powr_minus_one: "(2::real) powr (- 1) = 1 / 2"
  by (simp add: powr_neg_one)

lemma two_powr_le_one:
  assumes "a \<le> 0"
  shows "(2::real) powr a \<le> 1"
proof -
  have "(2::real) powr a \<le> 2 powr 0"
    using assms by (intro powr_mono) simp_all
  then show ?thesis by simp
qed

lemma f64_round_zero: "f64_round 0 = 0"
  by (simp add: f64_round_def)

lemma powr_floor_log_le:
  assumes "0 < x"
  shows "2 powr of_int \<lfloor>log 2 x\<rfloor> \<le> x"
proof -
  have "2 powr of_int \<lfloor>log 2 x\<rfloor> \<le> 2 powr log 2 x"
    by (intro powr_mono) simp_all
  then show ?thesis using assms by simp
qed

lemma f64_round_near:
  assumes "0 < x"
  shows "\<bar>f64_round x - x\<bar> \<le> 2 powr (of_int (max \<lfloor>log 2 x\<rfloor> (- 1022)) - 52) / 2"
proof -
  let ?u = "(2::real) powr (of_int (max \<lfloor>log 2 x\<rfloor> (- 1022)) - 52)"
  have u: "0 < ?u" by simp
  have "f64_round x - x = (of_int (round_half_even (x / ?u)) - x / ?u) * ?u"
    using assms u by (simp add: f64_round_def Let_def algebra_simps)
  then have "\<bar>f64_round x - x\<bar> = \<bar>of_int (round_half_even (x / ?u)) - x / ?u\<bar> * ?u"
    using u by (simp add: abs_mult)
  also have "\<dots> \<le> (1 / 2) * ?u"
    using round_half_even_near [of "x / ?u"] u by (intro mult_right_mono) simp_all
  finally show ?thesis by simp
qed

lemma f64_round_normal:
  assumes "2 powr (- 1022) \<le> x"
  shows "x / 2 \<le> f64_round x \<and> f64_round x \<le> 2 * x"
proof -
  have x: "0 < x"
    using assms by (rule less_le_trans [rotated]) simp
  have "- 1022 \<le> log 2 x"
    using assms x by (simp add: le_log_iff)
  then have "- 1022 \<le> \<lfloor>log 2 x\<rfloor>"
    by (simp add: le_floor_iff)
  then have e: "max \<lfloor>log 2 x\<rfloor> (- 1022) = \<lfloor>log 2 x\<rfloor>" by simp
  have "(2::real) powr (of_int \<lfloor>log 2 x\<rfloor> - 52)
          = 2 powr of_int \<lfloor>log 2 x\<rfloor> * 2 powr (- 52)"
    using powr_add [of "2::real" "of_int \<lfloor>log 2 x\<rfloor>" "- 52"] by simp
  also have "\<dots> \<le> x * 2 powr (- 52)"
    using powr_floor_log_le [OF x] by (intro mult_right_mono) simp_all
  also have "\<dots> \<le> x * (1 / 2)"
  proof (intro mult_left_mono)
    have "(2::real) powr (- 52) \<le> 2 powr (- 1)"
      by (intro powr_mono) simp_all
    then show "(2::real) powr (- 52) \<le> 1 / 2"
      by (simp only: two_powr_minus_one)
  next
    show "0 \<le> x" using x by simp
  qed
  finally have u: "(2::real) powr (of_int \<lfloor>log 2 x\<rfloor> - 52) \<le> x / 2" by simp
  from f64_round_near [OF x] e
  have "\<bar>f64_round x - x\<bar> \<le> 2 powr (of_int \<lfloor>log 2 x\<rfloor> - 52) / 2" by simp
  with u have "\<bar>f64_round x - x\<bar> \<le> x / 4" by simp
  then show ?thesis using x by linarith
qed

lemma f64_round_underflow:
  assumes "0 \<le> x" and "x < 2 powr (- 1075)"
  shows "f64_round x = 0"
proof (cases "x = 0")
  case True
  then show ?thesis by (simp add: f64_round_zero)
next
  case False
  then have x: "0 < x" using assms(1) by simp
  have "log 2 x < - 1075"
    using assms(2) x by (simp add: log_less_iff)
  then have "\<lfloor>log 2 x\<rfloor> < - 1022"
    by (simp add: floor_less_iff)
  then have e: "max \<lfloor>log 2 x\<rfloor> (- 1022) = - 1022" by simp
  have "x / 2 powr (- 1074) < 2 powr (- 1075) / 2 powr (- 1074)"
    using assms(2) by (intro divide_strict_right_mono) simp_all
  also have "\<dots> = 2 powr (- 1075 - (- 1074))"
    by (rule powr_diff [symmetric])
  also have "\<dots> = 2 powr (- 1)"
    by simp
  also have "\<dots> = 1 / 2"
    by (rule two_powr_minus_one)
  finally have y: "x / 2 powr (- 1074) < 1 / 2" .
  have "0 \<le> x / 2 powr (- 1074)" using x by simp
  from round_half_even_small [OF this y] show ?thesis
    using x by (simp add: f64_round_def Let_def e)
qed

lemma f64_round_bounds:
  assumes "0 \<le> x"
  shows "0 \<le> f64_round x \<and> f64_round x \<le> 2 * x + 1"
proof (cases "x = 0")
  case True
  then show ?thesis by (simp add: f64_round_zero)
next
  case False
  then have x: "0 < x" using assms by simp
  show ?thesis
  proof (cases "2 powr (- 1022) \<le> x")
    case True
    from f64_round_normal [OF True] x show ?thesis by simp
  next
    case False
    then have "log 2 x < - 1022"
      using x by (simp add: log_less_iff)
    then have "\<lfloor>log 2 x\<rfloor> < - 1022"
      by (simp add: floor_less_iff)
    then have e: "max \<lfloor>log 2 x\<rfloor> (- 1022) = - 1022" by simp
    have "(2::real) powr (- 1074) \<le> 2 powr 0"
      by (intro powr_mono) simp_all
    then have u: "(2::real) powr (- 1074) \<le> 1" by simp
    from f64_round_near [OF x] e
    have n: "\<bar>f64_round x - x\<bar> \<le> 2 powr (- 1074) / 2" by simp
    have "0 \<le> x / 2 powr (- 1074)" using x by simp
    then have "0 \<le> \<lfloor>x / 2 powr (- 1074)\<rfloor>" by simp
    moreover have "\<lfloor>x / 2 powr (- 1074)\<rfloor> \<le> round_half_even (x / 2 powr (- 1074))"
      by (simp add: round_half_even_def Let_def)
    ultimately have "0 \<le> round_half_even (x / 2 powr (- 1074))" by (rule order_trans)
    then have "0 \<le> f64_round x"
      using x by (simp add: f64_round_def Let_def e)
    moreover have "f64_round x - x \<le> 2 powr (- 1074) / 2"
      using n by linarith
    ultimately show ?thesis using u x by linarith
  qed
qed

lemma f64_round_power_of_two:
  assumes "- 1022 \<le> k"
  shows "f64_round (2 powr of_int k) = 2 powr of_int k"
proof -
  have e: "max \<lfloor>log 2 \<bar>2 powr of_int k\<bar>\<rfloor> (- 1022) = k"
    using assms by simp
  have "((2::real) powr of_int k) / 2 powr (of_int k - 52) = 2 powr 52"
    using powr_diff [of "2::real" "of_int k" "of_int k - 52"] by simp
  also have "\<dots> = of_int (2 ^ 52)"
    by simp
  finally have y: "((2::real) powr of_int k) / 2 powr (of_int k - 52) = of_int (2 ^ 52)" .
  have "f64_round (2 powr of_int k)
          = of_int (round_half_even (of_int (2 ^ 52))) * 2 powr (of_int k - 52)"
    unfolding f64_round_def Let_def e y by simp
  also have "\<dots> = 2 powr 52 * 2 powr (of_int k - 52)"
    unfolding round_half_even_of_int by simp
  also have "\<dots> = 2 powr of_int k"
    using powr_add [of "2::real" 52 "of_int k - 52"] by simp
  finally show ?thesis .
qed

subsection \<open>The decayed sigma and the denominator\<close>

lemma f64_pi_bounds: "1 \<le> f64_round (2 * f64_round pi) \<and> f64_round (2 * f64_round pi) \<le> 32"
proof -
  have p: "2 \<le> pi" "pi < 4" using pi_ge_two pi_less_4 by simp_all
  have "(2::real) powr (- 1022) \<le> 1" by (rule two_powr_le_one) simp
  then have "2 powr (- 1022) \<le> pi" using p by linarith
  note pn = f64_round_normal [OF this]
  have a: "1 \<le> f64_round pi" "f64_round pi \<le> 8"
    using pn [THEN conjunct1] pn [THEN conjunct2] p by linarith+
  have "(2::real) powr (- 1022) \<le> 1" by (rule two_powr_le_one) simp
  then have "2 powr (- 1022) \<le> 2 * f64_round pi" using a by linarith
  note cn = f64_round_normal [OF this]
  show ?thesis
    using cn [THEN conjunct1] cn [THEN conjunct2] a by (intro conjI) linarith+
qed

lemma kernel_denominator_f64_positive:
  assumes "2 powr (- 507) \<le> s"
  shows "0 < kernel_denominator_f64 s"
proof -
  let ?c = "f64_round (2 * f64_round pi)"
  have c: "1 \<le> ?c" using f64_pi_bounds by simp
  have s0: "0 < s"
    using assms by (rule less_le_trans [rotated]) simp
  have m: "(2::real) powr (- 1022) \<le> 2 powr (- 507)"
    by (intro powr_mono) simp_all
  have "s \<le> ?c * s" using c s0 by simp
  then have cs: "2 powr (- 507) \<le> ?c * s" using assms by linarith
  then have "2 powr (- 1022) \<le> ?c * s" using m by linarith
  from f64_round_normal [OF this, THEN conjunct1] cs
  have a: "2 powr (- 507) / 2 \<le> f64_round (?c * s)" by linarith
  have "(2::real) powr (- 1022) = 2 powr (- 508) * 2 powr (- 514)"
    using powr_add [of "2::real" "- 508" "- 514"] by simp
  also have "\<dots> \<le> 2 powr (- 508) * 2 powr (- 507)"
    by (intro mult_left_mono powr_mono) simp_all
  also have "\<dots> = (2 powr (- 507) / 2) * 2 powr (- 507)"
  proof -
    have "(2::real) powr (- 508) = 2 powr (- 507) * 2 powr (- 1)"
      using powr_add [of "2::real" "- 507" "- 1"] by simp
    then have "(2::real) powr (- 508) = 2 powr (- 507) * (1 / 2)"
      by (simp only: two_powr_minus_one)
    then show ?thesis by simp
  qed
  also have "\<dots> \<le> f64_round (?c * s) * s"
  proof (intro mult_mono)
    show "2 powr (- 507) / 2 \<le> f64_round (?c * s)" by (rule a)
    show "2 powr (- 507) \<le> s" by (rule assms)
    have "(0::real) \<le> 2 powr (- 507) / 2" by simp
    then show "0 \<le> f64_round (?c * s)" using a by (rule order_trans)
    show "(0::real) \<le> 2 powr (- 507)" by simp
  qed
  finally have "2 powr (- 1022) \<le> f64_round (?c * s) * s" .
  from f64_round_normal [OF this, THEN conjunct1]
  have "f64_round (?c * s) * s / 2 \<le> kernel_denominator_f64 s"
    by (simp add: kernel_denominator_f64_def)
  moreover have "0 < f64_round (?c * s) * s"
  proof (intro mult_pos_pos)
    have "(0::real) < 2 powr (- 507) / 2" by simp
    then show "0 < f64_round (?c * s)" using a by (rule less_le_trans)
    show "0 < s" by (rule s0)
  qed
  ultimately show ?thesis by linarith
qed

lemma kernel_denominator_f64_underflow: "kernel_denominator_f64 (2 powr (- 600)) = 0"
proof -
  let ?c = "f64_round (2 * f64_round pi)"
  let ?s = "(2::real) powr (- 600)"
  have c: "1 \<le> ?c" "?c \<le> 32" using f64_pi_bounds by simp_all
  have s0: "0 < ?s" by simp
  have "(2::real) powr (- 1022) \<le> ?s"
    by (intro powr_mono) simp_all
  moreover have "?s \<le> ?c * ?s" using c(1) by simp
  ultimately have "2 powr (- 1022) \<le> ?c * ?s" by linarith
  note an = f64_round_normal [OF this]
  have "0 \<le> ?c * ?s / 2" using c(1) by simp
  then have a: "0 \<le> f64_round (?c * ?s)" "f64_round (?c * ?s) \<le> 2 * (?c * ?s)"
    using an [THEN conjunct1] an [THEN conjunct2] by linarith+
  have "f64_round (?c * ?s) \<le> 64 * ?s"
  proof -
    have "2 * (?c * ?s) \<le> 2 * (32 * ?s)"
      using c(2) by (intro mult_left_mono mult_right_mono) simp_all
    then show ?thesis using a(2) by linarith
  qed
  then have "f64_round (?c * ?s) * ?s \<le> (64 * ?s) * ?s"
    by (intro mult_right_mono) simp_all
  also have "\<dots> = 2 powr 6 * (?s * ?s)"
    by simp
  also have "?s * ?s = 2 powr (- 1200)"
    using powr_add [of "2::real" "- 600" "- 600"] by simp
  also have "2 powr 6 * 2 powr (- 1200) = (2::real) powr (- 1194)"
    using powr_add [of "2::real" 6 "- 1200"] by simp
  finally have u: "f64_round (?c * ?s) * ?s \<le> 2 powr (- 1194)" .
  have "(2::real) powr (- 1194) < 2 powr (- 1075)"
    by (intro powr_less_mono) simp_all
  with u have lt: "f64_round (?c * ?s) * ?s < 2 powr (- 1075)" by linarith
  have ge: "0 \<le> f64_round (?c * ?s) * ?s" using a(1) by simp
  from f64_round_underflow [OF ge lt] show ?thesis
    by (simp add: kernel_denominator_f64_def)
qed

lemma decay_function_f64_step_zero:
  assumes "- 1022 \<le> k" and "1 \<le> j"
  shows "decay_function_f64 (2 powr of_int k) 0 (2 ^ nat j) = Inr (2 powr of_int k)"
proof -
  have one: "f64_round 1 = 1"
    using f64_round_power_of_two [of 0] by simp
  have "real_of_int (2 ^ nat j) / 2 = 2 powr of_int (j - 1)"
  proof -
    have "(2::real) powr of_int (j - 1) = 2 powr of_int j / 2 powr 1"
      using powr_diff [of "2::real" "of_int j" 1] by simp
    also have "2 powr of_int j = (2::real) ^ nat j"
      using assms(2) powr_realpow [of "2::real" "nat j"] by simp
    finally show ?thesis by simp
  qed
  moreover have "f64_round (2 powr of_int (j - 1)) = 2 powr of_int (j - 1)"
    using assms(2) by (intro f64_round_power_of_two) simp
  ultimately have half: "f64_round (real_of_int (2 ^ nat j) / 2) = 2 powr of_int (j - 1)"
    by simp
  have nz: "(2::real) powr of_int (j - 1) \<noteq> 0" by simp
  show ?thesis
    unfolding decay_function_f64_def Let_def half
    using nz one f64_round_power_of_two [OF assms(1)] by (simp add: f64_round_zero)
qed

lemma decay_function_f64_bounds:
  assumes "1 \<le> n" and "0 \<le> t" and "t < n" and "72 * 2 powr (- 1022) \<le> param"
  shows "\<exists>s. decay_function_f64 param t n = Inr s \<and> param / 72 \<le> s"
proof -
  let ?half = "f64_round (real_of_int n / 2)"
  let ?x = "f64_round (real_of_int t) / ?half"
  let ?q = "f64_round (1 + f64_round ?x)"
  have small: "(2::real) powr (- 1022) \<le> 1 / 2"
  proof -
    have "(2::real) powr (- 1022) \<le> 2 powr (- 1)"
      by (intro powr_mono) simp_all
    then show ?thesis by (simp only: two_powr_minus_one)
  qed
  have p0: "0 < param"
    using assms(4) by (rule less_le_trans [rotated]) simp
  have n: "1 \<le> real_of_int n" using assms(1) by simp
  then have "2 powr (- 1022) \<le> real_of_int n / 2" using small by linarith
  from f64_round_normal [OF this, THEN conjunct1]
  have half: "real_of_int n / 4 \<le> ?half" by linarith
  then have hpos: "0 < ?half" using n by linarith
  have t: "0 \<le> real_of_int t" using assms(2) by simp
  from f64_round_bounds [OF t]
  have tf: "0 \<le> f64_round (real_of_int t)" "f64_round (real_of_int t) \<le> 2 * real_of_int t + 1"
    by simp_all
  have "real_of_int t + 1 \<le> real_of_int n"
    using assms(3) by linarith
  then have tn: "f64_round (real_of_int t) \<le> 2 * real_of_int n" using tf(2) by linarith
  have x0: "0 \<le> ?x" using tf(1) hpos by simp
  have "?x \<le> (2 * real_of_int n) / (real_of_int n / 4)"
    using tn half n tf(1) by (intro frac_le) simp_all
  also have "\<dots> = 8" using n by simp
  finally have x8: "?x \<le> 8" .
  note rn = f64_round_bounds [OF x0]
  define r where "r = f64_round ?x"
  have r: "0 \<le> r" "r \<le> 17"
    using rn [THEN conjunct1] rn [THEN conjunct2] x8 unfolding r_def by linarith+
  have "2 powr (- 1022) \<le> 1 + r" using small r(1) by linarith
  note qn = f64_round_normal [OF this]
  define q where "q = f64_round (1 + r)"
  have "1 / 2 \<le> (1 + r) / 2" using r(1) by simp
  then have q1: "1 / 2 \<le> q"
    unfolding q_def using qn [THEN conjunct1] by (rule order_trans)
  have "2 * (1 + r) \<le> 36" using r(2) by simp
  with qn [THEN conjunct2] have q2: "q \<le> 36"
    unfolding q_def by (rule order_trans)
  note q' = q1 q2
  have q: "1 / 2 \<le> ?q" "?q \<le> 36"
    using q' unfolding q_def r_def by simp_all
  then have qpos: "0 < ?q" by linarith
  define z where "z = param / ?q"
  have pq: "param / 36 \<le> z"
    unfolding z_def using q(2) qpos p0 by (intro divide_left_mono) simp_all
  have "(0::real) \<le> 2 powr (- 1022)" by simp
  then have "36 * 2 powr (- 1022) \<le> param" using assms(4) by linarith
  then have "2 powr (- 1022) \<le> param / 36" by simp
  then have "2 powr (- 1022) \<le> z" using pq by linarith
  from f64_round_normal [OF this, THEN conjunct1] pq
  have "param / 72 \<le> f64_round z" by linarith
  then have "param / 72 \<le> f64_round (param / ?q)" unfolding z_def .
  moreover have "decay_function_f64 param t n = Inr (f64_round (param / ?q))"
    using hpos qpos by (simp add: decay_function_f64_def Let_def)
  ultimately show ?thesis by blast
qed

text \<open>
  C7, as stated, fails: for the positive initial sigma \<open>2^(-600)\<close>, a float64, the
  decayed sigma of step 0 is sigma itself, and the float64 product
  \<open>2 * pi * sigma * sigma\<close> underflows to 0: the denominator of the kernel is zero in
  the first step.
\<close>

theorem kernel_denominator_underflow_counterexample:
  "(0::real) < 2 powr (- 600)
   \<and> 1 \<le> n_rows example_frame
   \<and> decay_function_f64 (2 powr (- 600)) 0 (1 * int (n_rows example_frame)) = Inr (2 powr (- 600))
   \<and> kernel_denominator_f64 (2 powr (- 600)) = 0"
proof -
  have n: "n_rows example_frame = 4" by (simp add: example_frame_def)
  have "decay_function_f64 (2 powr of_int (- 600)) 0 (2 ^ nat 2) = Inr (2 powr of_int (- 600))"
    by (rule decay_function_f64_step_zero) simp_all
  then have "decay_function_f64 (2 powr (- 600)) 0 4 = Inr (2 powr (- 600))"
    by simp
  then show ?thesis
    using kernel_denominator_f64_underflow by (simp add: n)
qed

text \<open>
  C7, amended. For an initial sigma of at least \<open>2^(-500)\<close> (about \<open>3e-151\<close>), a sample
  matrix of \<open>N \<ge> 1\<close> rows and \<open>num_passes \<ge> 1\<close>, at every step \<open>t < T = num_passes * N\<close>
  the decay of sigma in float64 does not raise and gives a strictly positive value, and
  the float64 denominator \<open>d = 2 * pi * sigma * sigma\<close> of that value is not zero; so
  are the decayed sigma and the denominator of exact arithmetic, which are positive for
  every sigma above 0 (\<open>decay_function_positive\<close>, \<open>kernel_denominator_nonzero\<close>).
\<close>

theorem decayed_sigma_f64_nonzero:
  assumes "2 powr (- 500) \<le> sigma" and "1 \<le> n_rows pixel_mat" and "1 \<le> num_passes"
    and "T = nat num_passes * n_rows pixel_mat" and "t < T"
  shows "(\<exists>s. decay_function_f64 sigma (int t) (num_passes * int (n_rows pixel_mat)) = Inr s
            \<and> 0 < s \<and> kernel_denominator_f64 s \<noteq> 0)
       \<and> (\<exists>s. decay_function sigma (int t) (num_passes * int (n_rows pixel_mat)) = Inr s
            \<and> 0 < s \<and> kernel_denominator s \<noteq> 0)"
proof -
  let ?n = "num_passes * int (n_rows pixel_mat)"
  have nT: "?n = int T"
    using num_iters_nat [OF assms(3)] assms(4) by simp
  have "1 \<le> T"
    using assms(2,3,4) by (simp add: nat_le_iff Suc_le_eq)
  then have n: "1 \<le> ?n" unfolding nT by simp
  have t: "0 \<le> int t" by simp
  have tn: "int t < ?n" unfolding nT using assms(5) by simp
  have s0: "0 < sigma"
    using assms(1) by (rule less_le_trans [rotated]) simp
  have m: "(2::real) powr (- 1015) \<le> 2 powr (- 500)"
    by (intro powr_mono) simp_all
  have e: "(2::real) powr 7 * 2 powr (- 1022) = 2 powr (- 1015)"
    using powr_add [of "2::real" 7 "- 1022"] by simp
  have "(0::real) \<le> 2 powr (- 1022)" by simp
  then have "72 * (2::real) powr (- 1022) \<le> 128 * 2 powr (- 1022)"
    by (intro mult_right_mono) simp_all
  also have "\<dots> = 2 powr (- 1015)" using e by simp
  finally have p: "72 * 2 powr (- 1022) \<le> sigma" using m assms(1) by linarith
  from decay_function_f64_bounds [OF n t tn p] obtain s where
    s: "decay_function_f64 sigma (int t) ?n = Inr s" "sigma / 72 \<le> s"
    by blast
  have e2: "(2::real) powr (- 507) * 2 powr 7 = 2 powr (- 500)"
    using powr_add [of "2::real" "- 507" 7] by simp
  have "(2::real) powr (- 507) * 72 \<le> 2 powr (- 507) * 128"
    by (intro mult_left_mono) simp_all
  also have "\<dots> = 2 powr (- 500)" using e2 by simp
  finally have "2 powr (- 507) * 72 \<le> sigma" using assms(1) by linarith
  then have "2 powr (- 507) \<le> sigma / 72" by simp
  then have l: "2 powr (- 507) \<le> s" using s(2) by linarith
  have spos: "0 < s"
    using l by (rule less_le_trans [rotated]) simp
  have "kernel_denominator_f64 s \<noteq> 0"
    using kernel_denominator_f64_positive [OF l] by simp
  then have a: "\<exists>s. decay_function_f64 sigma (int t) ?n = Inr s
            \<and> 0 < s \<and> kernel_denominator_f64 s \<noteq> 0"
    using s(1) spos by blast
  from decay_function_positive [OF s0 n t] obtain s' where
    s': "decay_function sigma (int t) ?n = Inr s'" "0 < s'"
    by blast
  then have b: "\<exists>s. decay_function sigma (int t) ?n = Inr s
            \<and> 0 < s \<and> kernel_denominator s \<noteq> 0"
    using kernel_denominator_nonzero [OF s'(2)] by blast
  show ?thesis using a b by (rule conjI)
qed

theorem decayed_sigma_f64_nonzero_witness:
  "(2::real) powr (- 500) \<le> 1 \<and> 1 \<le> n_rows example_frame \<and> (1::int) \<le> 1
   \<and> (4::nat) = nat 1 * n_rows example_frame \<and> (3::nat) < 4
   \<and> (\<exists>s. decay_function_f64 1 (int 3) (1 * int (n_rows example_frame)) = Inr s
          \<and> 0 < s \<and> kernel_denominator_f64 s \<noteq> 0)
   \<and> decay_function 1 (int 3) (1 * int (n_rows example_frame)) = Inr (2 / 5)
   \<and> kernel_denominator (2 / 5) \<noteq> 0"
proof -
  have "(2::real) powr (- 500) \<le> 2 powr 0"
    by (intro powr_mono) simp_all
  then have h1: "(2::real) powr (- 500) \<le> 1" by simp
  have h: "1 \<le> n_rows example_frame" "(1::int) \<le> 1"
    "(4::nat) = nat 1 * n_rows example_frame" "(3::nat) < 4"
    by (simp_all add: example_frame_def)
  note d = decayed_sigma_f64_nonzero [OF h1 h]
  from d [THEN conjunct2] obtain s where
    s: "decay_function 1 (int 3) (1 * int (n_rows example_frame)) = Inr s"
       "kernel_denominator s \<noteq> 0"
    by blast
  have "decay_function 1 (int 3) (1 * int (n_rows example_frame)) = Inr (2 / 5)"
    by (simp add: decay_function_def example_frame_def Let_def)
  with s have "s = 2 / 5" by simp
  with s have r: "decay_function 1 (int 3) (1 * int (n_rows example_frame)) = Inr (2 / 5)"
    "kernel_denominator (2 / 5) \<noteq> 0"
    by simp_all
  show ?thesis
    using h1 h d [THEN conjunct1] r by (intro conjI)
qed

section \<open>Properties of the cluster assignment\<close>

subsection \<open>Distinct values in order of first appearance\<close>

lemma set_unique_acc: "set (unique_acc seen xs) = set seen \<union> set xs"
  by (induction xs arbitrary: seen) auto

lemma distinct_unique_acc: "distinct seen \<Longrightarrow> distinct (unique_acc seen xs)"
  by (induction xs arbitrary: seen) auto

lemma unique_acc_extends: "\<exists>ys. unique_acc seen xs = seen @ ys"
proof (induction xs arbitrary: seen)
  case Nil
  show ?case by simp
next
  case (Cons x xs)
  show ?case
  proof (cases "x \<in> set seen")
    case True
    then show ?thesis using Cons.IH [of seen] by simp
  next
    case False
    from Cons.IH [of "seen @ [x]"] obtain ys where "unique_acc (seen @ [x]) xs = (seen @ [x]) @ ys"
      by blast
    then show ?thesis using False by simp
  qed
qed

lemma unique_acc_first:
  assumes "distinct seen" and "i < length xs"
    and "xs ! i \<notin> set seen" and "xs ! i \<notin> set (take i xs)"
  shows "unique_acc seen xs ! (length seen + card (set (take i xs) - set seen)) = xs ! i"
  using assms
proof (induction xs arbitrary: seen i)
  case Nil
  then show ?case by simp
next
  case (Cons x xs)
  show ?case
  proof (cases i)
    case 0
    then have new: "x \<notin> set seen" using Cons.prems(3) by simp
    from unique_acc_extends [of "seen @ [x]" xs] obtain ys where
      "unique_acc (seen @ [x]) xs = (seen @ [x]) @ ys" by blast
    then show ?thesis using 0 new by (simp add: nth_append)
  next
    case (Suc j)
    have j: "j < length xs" using Cons.prems(2) Suc by simp
    have ne: "xs ! j \<noteq> x" using Cons.prems(4) Suc by auto
    have nt: "xs ! j \<notin> set (take j xs)" using Cons.prems(4) Suc by simp
    have ns: "xs ! j \<notin> set seen" using Cons.prems(3) Suc by simp
    show ?thesis
    proof (cases "x \<in> set seen")
      case True
      then have "insert x (set (take j xs)) - set seen = set (take j xs) - set seen"
        by auto
      then show ?thesis
        using Cons.IH [OF Cons.prems(1) j ns nt] True Suc by simp
    next
      case False
      have d: "distinct (seen @ [x])" using Cons.prems(1) False by simp
      have ns': "xs ! j \<notin> set (seen @ [x])" using ns ne by simp
      have "insert x (set (take j xs)) - set seen
              = insert x (set (take j xs) - set (seen @ [x]))"
        using False by auto
      moreover have "x \<notin> set (take j xs) - set (seen @ [x])" by simp
      ultimately have c: "card (insert x (set (take j xs)) - set seen)
              = Suc (card (set (take j xs) - set (seen @ [x])))"
        by simp
      show ?thesis
        using Cons.IH [OF d j ns' nt] False Suc c by simp
    qed
  qed
qed

lemma set_unique: "set (unique xs) = set xs"
  by (simp add: unique_def set_unique_acc)

lemma distinct_unique: "distinct (unique xs)"
  by (simp add: unique_def distinct_unique_acc)

lemma length_unique: "length (unique xs) = card (set xs)"
  using distinct_card [OF distinct_unique, of xs] by (simp add: set_unique)

lemma unique_first:
  assumes "i < length xs" and "xs ! i \<notin> set (take i xs)"
  shows "card (set (take i xs)) < length (unique xs)
       \<and> unique xs ! card (set (take i xs)) = xs ! i"
proof -
  have "set (take i xs) \<subseteq> set xs" by (rule set_take_subset)
  moreover have "xs ! i \<in> set xs" using assms(1) by simp
  ultimately have "set (take i xs) \<subset> set xs" using assms(2) by blast
  then have "card (set (take i xs)) < card (set xs)"
    by (intro psubset_card_mono) simp_all
  moreover have "unique xs ! card (set (take i xs)) = xs ! i"
    using unique_acc_first [of "[]" i xs] assms by (simp add: unique_def)
  ultimately show ?thesis by (simp add: length_unique)
qed

subsection \<open>The string of a coordinate determines the coordinate\<close>

lemma digit_char_code:
  assumes "d < 10"
  shows "of_char (digit_char d) = 48 + d"
proof -
  from assms have "d = 0 \<or> d = 1 \<or> d = 2 \<or> d = 3 \<or> d = 4
     \<or> d = 5 \<or> d = 6 \<or> d = 7 \<or> d = 8 \<or> d = 9"
    by presburger
  then show ?thesis
    by (elim disjE) (simp_all add: digit_char_def)
qed

lemma digit_char_not_comma:
  assumes "d < 10"
  shows "digit_char d \<noteq> CHR '',''"
proof
  assume "digit_char d = CHR '',''"
  then have "of_char (digit_char d) = (of_char (CHR '','') :: nat)" by simp
  then show False using digit_char_code [OF assms] by simp
qed

lemma nat_of_str_nat: "nat_of_str (str_nat n) = n"
proof (induction n rule: str_nat.induct)
  case (1 n)
  show ?case
  proof (cases "n < 10")
    case True
    then have s: "str_nat n = [digit_char n]"
      by (subst str_nat.simps) simp
    show ?thesis
      unfolding s nat_of_str_def using True by (simp add: digit_char_code)
  next
    case False
    have m: "n mod 10 < 10" by simp
    have s: "str_nat n = str_nat (n div 10) @ [digit_char (n mod 10)]"
      using False by (subst str_nat.simps) simp
    have "nat_of_str (str_nat n)
            = 10 * nat_of_str (str_nat (n div 10)) + (of_char (digit_char (n mod 10)) - 48)"
      unfolding s nat_of_str_def by simp
    also have "\<dots> = 10 * (n div 10) + n mod 10"
      using 1 False by (simp add: digit_char_code [OF m])
    finally show ?thesis by simp
  qed
qed

lemma str_nat_inj:
  assumes "str_nat a = str_nat b"
  shows "a = b"
proof -
  have "a = nat_of_str (str_nat a)" by (simp only: nat_of_str_nat)
  also have "\<dots> = nat_of_str (str_nat b)" by (simp only: assms)
  also have "\<dots> = b" by (simp only: nat_of_str_nat)
  finally show ?thesis .
qed

lemma str_nat_no_comma: "CHR '','' \<notin> set (str_nat n)"
proof (induction n rule: str_nat.induct)
  case (1 n)
  show ?case
  proof (cases "n < 10")
    case True
    then have s: "str_nat n = [digit_char n]"
      by (subst str_nat.simps) simp
    show ?thesis
      unfolding s using digit_char_not_comma [OF True] by auto
  next
    case False
    have m: "n mod 10 < 10" by simp
    have s: "str_nat n = str_nat (n div 10) @ [digit_char (n mod 10)]"
      using False by (subst str_nat.simps) simp
    show ?thesis
      unfolding s using False 1 digit_char_not_comma [OF m] by auto
  qed
qed

lemma astype_str_inj: "astype_str c = astype_str c' \<Longrightarrow> c = c'"
proof -
  assume e: "astype_str c = astype_str c'"
  obtain x y where c: "c = (x, y)" by (cases c)
  obtain x' y' where c': "c' = (x', y')" by (cases c')
  from e have "str_nat x @ CHR '','' # (CHR '' '' # str_nat y @ '')'')
             = str_nat x' @ CHR '','' # (CHR '' '' # str_nat y' @ '')'')"
    by (simp add: astype_str_def c c')
  moreover have "CHR '','' \<notin> set (CHR '' '' # str_nat y @ '')'')"
    using str_nat_no_comma [of y] by simp
  ultimately have "str_nat x = str_nat x'
      \<and> CHR '' '' # str_nat y @ '')'' = CHR '' '' # str_nat y' @ '')''"
    using append_Cons_eq_iff [OF str_nat_no_comma [of x], of "CHR '' '' # str_nat y @ '')''"
        "str_nat x'" "CHR '' '' # str_nat y' @ '')''"]
    by blast
  then have "str_nat x = str_nat x' \<and> str_nat y = str_nat y'" by simp
  then show ?thesis using c c' str_nat_inj by blast
qed

lemma inj_astype_str: "inj astype_str"
  using astype_str_inj by (auto simp: inj_on_def)

subsection \<open>replace\<close>

subsection \<open>Labels\<close>

lemma replace_value_nth:
  assumes "distinct us" and "j < length us" and "length vs = length us"
  shows "replace_value us vs (us ! j) = Label (vs ! j)"
  using assms
proof (induction us arbitrary: vs j)
  case Nil
  then show ?case by simp
next
  case (Cons s us)
  then obtain v vs' where vs: "vs = v # vs'" by (cases vs) auto
  show ?case
  proof (cases j)
    case 0
    then show ?thesis by (simp add: vs)
  next
    case (Suc i)
    have ne: "us ! i \<noteq> s" using Cons.prems Suc by auto
    have "replace_value us vs' (us ! i) = Label (vs' ! i)"
      using Cons.IH [of i vs'] Cons.prems Suc vs by simp
    then show ?thesis using Suc ne by (simp add: vs)
  qed
qed

lemma labels_of_unique:
  fixes xs :: "string list"
  shows "\<exists>labels. map (replace_value (unique xs) [0..<length (unique xs)]) xs = map Label labels
           \<and> length labels = length xs
           \<and> (\<forall>i<length xs. labels ! i < length (unique xs) \<and> unique xs ! (labels ! i) = xs ! i)"
proof -
  let ?us = "unique xs"
  have "\<forall>i<length xs. \<exists>j. j < length ?us \<and> ?us ! j = xs ! i"
  proof (intro allI impI)
    fix i assume "i < length xs"
    then have "xs ! i \<in> set ?us" by (simp add: set_unique)
    then show "\<exists>j. j < length ?us \<and> ?us ! j = xs ! i"
      by (simp add: in_set_conv_nth)
  qed
  then have "\<exists>f. \<forall>i<length xs. f i < length ?us \<and> ?us ! f i = xs ! i"
    by metis
  then obtain f where f: "\<forall>i<length xs. f i < length ?us \<and> ?us ! f i = xs ! i"
    by blast
  let ?labels = "map f [0..<length xs]"
  have "map (replace_value ?us [0..<length ?us]) xs = map Label ?labels"
  proof (rule nth_equalityI)
    show "length (map (replace_value ?us [0..<length ?us]) xs) = length (map Label ?labels)"
      by simp
  next
    fix i assume "i < length (map (replace_value ?us [0..<length ?us]) xs)"
    then have i: "i < length xs" by simp
    have "replace_value ?us [0..<length ?us] (?us ! f i) = Label ([0..<length ?us] ! f i)"
      using f i by (intro replace_value_nth distinct_unique) simp_all
    then show "map (replace_value ?us [0..<length ?us]) xs ! i = map Label ?labels ! i"
      using f i by simp
  qed
  moreover have "\<forall>i<length xs. ?labels ! i < length ?us \<and> ?us ! (?labels ! i) = xs ! i"
    using f by simp
  ultimately show ?thesis
    by (intro exI [of _ ?labels]) simp
qed

lemma first_occurrence_labels:
  fixes xs :: "'a list"
  assumes "length labels = length xs"
    and "\<forall>i<length xs. labels ! i < length (unique xs) \<and> unique xs ! (labels ! i) = xs ! i"
  shows "set labels = {0..<card (set xs)}"
    and "\<forall>i<length xs. \<forall>j<length xs. (labels ! i = labels ! j) = (xs ! i = xs ! j)"
    and "\<forall>i<length xs. xs ! i \<notin> set (take i xs) \<longrightarrow> labels ! i = card (set (take i xs))"
proof -
  let ?us = "unique xs"
  note d = distinct_unique [of xs]
  have same: "\<And>i j. i < length xs \<Longrightarrow> j < length ?us \<Longrightarrow> ?us ! j = xs ! i \<Longrightarrow> labels ! i = j"
  proof -
    fix i j assume i: "i < length xs" and j: "j < length ?us" and e: "?us ! j = xs ! i"
    have "labels ! i < length ?us" "?us ! (labels ! i) = ?us ! j"
      using assms(2) i e by simp_all
    then show "labels ! i = j"
      using d j by (simp add: nth_eq_iff_index_eq)
  qed
  show "set labels = {0..<card (set xs)}"
  proof (intro equalityI subsetI)
    fix l assume "l \<in> set labels"
    then obtain i where "i < length labels" "labels ! i = l"
      by (auto simp: in_set_conv_nth)
    then show "l \<in> {0..<card (set xs)}"
      using assms by (auto simp: length_unique)
  next
    fix j assume "j \<in> {0..<card (set xs)}"
    then have j: "j < length ?us" by (simp add: length_unique)
    then have "?us ! j \<in> set xs"
      using nth_mem [OF j] by (simp add: set_unique)
    then obtain i where i: "i < length xs" "xs ! i = ?us ! j"
      by (auto simp: in_set_conv_nth)
    from same [OF i(1) j] i(2) have "labels ! i = j" by simp
    then show "j \<in> set labels"
      using i(1) assms(1) by (metis nth_mem)
  qed
  show "\<forall>i<length xs. \<forall>j<length xs. (labels ! i = labels ! j) = (xs ! i = xs ! j)"
  proof (intro allI impI)
    fix i j assume i: "i < length xs" and j: "j < length xs"
    show "(labels ! i = labels ! j) = (xs ! i = xs ! j)"
    proof
      assume "labels ! i = labels ! j"
      then show "xs ! i = xs ! j" using assms(2) i j by metis
    next
      assume e: "xs ! i = xs ! j"
      have "labels ! j < length ?us" "?us ! (labels ! j) = xs ! i"
        using assms(2) j e by simp_all
      from same [OF i this] show "labels ! i = labels ! j" .
    qed
  qed
  show "\<forall>i<length xs. xs ! i \<notin> set (take i xs) \<longrightarrow> labels ! i = card (set (take i xs))"
  proof (intro allI impI)
    fix i assume i: "i < length xs" and n: "xs ! i \<notin> set (take i xs)"
    from unique_first [OF i n] same [OF i] show "labels ! i = card (set (take i xs))"
      by blast
  qed
qed

lemma apply_rows_all:
  assumes "length cs = length rows" and "\<forall>i<length rows. f (rows ! i) = Inr (cs ! i)"
  shows "apply_rows f rows = Inr cs"
  using assms
proof (induction rows arbitrary: cs)
  case Nil
  then show ?case by simp
next
  case (Cons r rows)
  then obtain c cs' where cs: "cs = c # cs'" by (cases cs) auto
  have h: "f r = Inr c" using Cons.prems(2) cs by auto
  have "\<forall>i<length rows. f (rows ! i) = Inr (cs' ! i)"
    using Cons.prems(2) cs by auto
  then have "apply_rows f rows = Inr cs'"
    using Cons.IH [of cs'] Cons.prems(1) cs by simp
  then show ?case using h cs by simp
qed

lemma apply_rows_first_fails:
  assumes "rows \<noteq> []" and "f (hd rows) = Inl e"
  shows "apply_rows f rows = Inl e"
  using assms by (cases rows) simp_all

lemma relabel_succeeds: "\<exists>labels. relabel coords = Inr labels"
  by (simp add: relabel_def series_replace_def Let_def)

lemma cluster_som_of_coords:
  assumes "length coords = n_rows pm"
    and "\<forall>i<n_rows pm. winner (row_values pm i) w = Inr (coords ! i)"
  shows "cluster_som pm w =
           Inr (map (replace_value (unique (map astype_str coords))
                       [0..<length (unique (map astype_str coords))])
                  (map astype_str coords))"
proof -
  have "apply_rows (\<lambda>row. winner row w) (df_rows pm) = Inr coords"
    using assms by (intro apply_rows_all) (simp_all add: df_rows_def)
  then show ?thesis
    by (simp add: cluster_som_def relabel_def series_replace_def Let_def)
qed

lemma cluster_som_fails_iff:
  assumes "1 \<le> n_rows pm"
  shows "(\<exists>e. cluster_som pm w = Inl e) \<longleftrightarrow>
     (n_cols pm \<noteq> num_chans w \<and> n_cols pm \<noteq> 1 \<and> num_chans w \<noteq> 1)
     \<or> num_x w = 0 \<or> num_y w = 0"
proof (cases "(n_cols pm \<noteq> num_chans w \<and> n_cols pm \<noteq> 1 \<and> num_chans w \<noteq> 1)
     \<or> num_x w = 0 \<or> num_y w = 0")
  case True
  have "\<exists>e. winner (row_values pm 0) w = Inl e"
  proof (cases "np_subtract (row_values pm 0) w")
    case (Inl e)
    then show ?thesis by (simp add: winner_def)
  next
    case (Inr diff)
    then have "\<not> (n_cols pm \<noteq> num_chans w \<and> n_cols pm \<noteq> 1 \<and> num_chans w \<noteq> 1)"
      using np_subtract_fails [of "row_values pm 0" w] by (auto simp: length_row_values)
    with True have "num_x w * num_y w = 0" by auto
    then show ?thesis by (rule winner_empty_grid)
  qed
  then obtain e where e: "winner (row_values pm 0) w = Inl e" by blast
  have r: "df_rows pm \<noteq> []" "hd (df_rows pm) = row_values pm 0"
    using assms by (simp_all add: df_rows_def upt_rec [of 0])
  have "apply_rows (\<lambda>row. winner row w) (df_rows pm) = Inl e"
    using r e by (intro apply_rows_first_fails) simp_all
  then show ?thesis using True by (simp add: cluster_som_def)
next
  case False
  have "\<forall>i<n_rows pm. \<exists>c. winner (row_values pm i) w = Inr c"
  proof (intro allI impI)
    fix i
    from False obtain diff where d: "np_subtract (row_values pm i) w = Inr diff"
      using np_subtract_fails [of "row_values pm i" w]
      by (cases "np_subtract (row_values pm i) w") (auto simp: length_row_values)
    have "0 < num_x w * num_y w" using False by simp
    from winner_of_diff [OF d this] show "\<exists>c. winner (row_values pm i) w = Inr c"
      by blast
  qed
  then have "\<exists>f. \<forall>i<n_rows pm. winner (row_values pm i) w = Inr (f i)"
    by metis
  then obtain f where f: "\<forall>i<n_rows pm. winner (row_values pm i) w = Inr (f i)"
    by blast
  have "apply_rows (\<lambda>row. winner row w) (df_rows pm) = Inr (map f [0..<n_rows pm])"
    using f by (intro apply_rows_all) (simp_all add: df_rows_def)
  then show ?thesis
    using False relabel_succeeds [of "map f [0..<n_rows pm]"] by (auto simp: cluster_som_def)
qed

lemma cluster_som_example:
  "cluster_som example_frame two_neuron_grid = Inr [Label 0, Label 1, Label 0, Label 1]"
  by (simp add: cluster_som_def relabel_def df_rows_def example_frame_def row_values_def
      winner_def two_neuron_grid_def np_subtract_def broadcast_dim_def bidx_def
      np_linalg_norm_def np_argmin_def ravel_def np_unravel_index_def Let_def upt_rec
      astype_str_def str_nat.simps digit_char_def unique_def series_replace_def)

lemma winner_example_rows:
  "\<forall>i<n_rows example_frame.
     winner (row_values example_frame i) two_neuron_grid
       = Inr ([(0, 0), (1, 0), (0, 0), (1, 0)] ! i)"
proof (intro allI impI)
  fix i assume "i < n_rows example_frame"
  then have "i = 0 \<or> i = 1 \<or> i = 2 \<or> i = 3"
    by (auto simp: example_frame_def)
  then show "winner (row_values example_frame i) two_neuron_grid
       = Inr ([(0, 0), (1, 0), (0, 0), (1, 0)] ! i)"
    by (elim disjE)
      (simp_all add: example_frame_def row_values_def
        winner_def two_neuron_grid_def np_subtract_def broadcast_dim_def bidx_def
        np_linalg_norm_def np_argmin_def ravel_def np_unravel_index_def Let_def upt_rec)
qed

text \<open>
  C3. For a sample matrix with at least one row (and column) whose rows have the winning
  coordinates \<open>coords\<close> on the grid, \<open>cluster_som\<close> returns one integer label per row;
  the set of labels is exactly \<open>{0, ..., K - 1}\<close> for \<open>K\<close> the number of distinct
  winning coordinates; two rows have the same label if and only if their winning
  coordinates are equal; the first row has label 0; and a row whose coordinate has not
  occurred before it gets as its label the number of distinct coordinates before it, so
  labels increase in order of first occurrence.
\<close>

theorem cluster_som_labels:
  assumes "1 \<le> n_rows pixel_mat" and "1 \<le> n_cols pixel_mat"
    and "length coords = n_rows pixel_mat"
    and "\<forall>i<n_rows pixel_mat. winner (row_values pixel_mat i) weights = Inr (coords ! i)"
  shows "\<exists>labels. cluster_som pixel_mat weights = Inr (map Label labels)
         \<and> length labels = n_rows pixel_mat
         \<and> set labels = {0..<card (set coords)}
         \<and> (\<forall>i<n_rows pixel_mat. \<forall>j<n_rows pixel_mat.
               (labels ! i = labels ! j) = (coords ! i = coords ! j))
         \<and> labels ! 0 = 0
         \<and> (\<forall>i<n_rows pixel_mat. (\<forall>j<i. coords ! j \<noteq> coords ! i) \<longrightarrow>
               labels ! i = card (set (take i coords)))"
proof -
  let ?N = "n_rows pixel_mat"
  let ?xs = "map astype_str coords"
  have len: "length ?xs = ?N" using assms(3) by simp
  from labels_of_unique [of ?xs] obtain labels where
    l: "map (replace_value (unique ?xs) [0..<length (unique ?xs)]) ?xs = map Label labels"
       "length labels = length ?xs"
       "\<forall>i<length ?xs. labels ! i < length (unique ?xs) \<and> unique ?xs ! (labels ! i) = ?xs ! i"
    by blast
  note f = first_occurrence_labels [OF l(2,3)]
  have res: "cluster_som pixel_mat weights = Inr (map Label labels)"
    using cluster_som_of_coords [OF assms(3,4)] l(1) by simp
  have card: "card (set ?xs) = card (set coords)"
    using card_image [OF inj_on_subset [OF inj_astype_str subset_UNIV], of "set coords"]
    by simp
  have cards: "\<And>i. card (set (take i ?xs)) = card (set (take i coords))"
  proof -
    fix i
    have "set (take i ?xs) = astype_str ` set (take i coords)"
      by (simp add: take_map)
    then show "card (set (take i ?xs)) = card (set (take i coords))"
      using card_image [OF inj_on_subset [OF inj_astype_str subset_UNIV], of "set (take i coords)"]
      by simp
  qed
  have s: "set labels = {0..<card (set coords)}"
    using f(1) card by simp
  have e: "\<forall>i<?N. \<forall>j<?N. (labels ! i = labels ! j) = (coords ! i = coords ! j)"
  proof (intro allI impI)
    fix i j assume i: "i < ?N" and j: "j < ?N"
    have "(labels ! i = labels ! j) = (?xs ! i = ?xs ! j)"
      using f(2) i j len by simp
    also have "\<dots> = (astype_str (coords ! i) = astype_str (coords ! j))"
      using i j assms(3) by simp
    also have "\<dots> = (coords ! i = coords ! j)"
      using astype_str_inj [of "coords ! i" "coords ! j"] by auto
    finally show "(labels ! i = labels ! j) = (coords ! i = coords ! j)" .
  qed
  have o: "\<forall>i<?N. (\<forall>j<i. coords ! j \<noteq> coords ! i) \<longrightarrow>
               labels ! i = card (set (take i coords))"
  proof (intro allI impI)
    fix i assume i: "i < ?N" and n: "\<forall>j<i. coords ! j \<noteq> coords ! i"
    have "?xs ! i \<notin> set (take i ?xs)"
    proof
      assume "?xs ! i \<in> set (take i ?xs)"
      then obtain j where j: "j < i" "j < length ?xs" "?xs ! j = ?xs ! i"
        by (auto simp: in_set_conv_nth)
      then have "astype_str (coords ! j) = astype_str (coords ! i)"
        using i assms(3) by simp
      then have "coords ! j = coords ! i"
        by (rule astype_str_inj)
      with n j(1) show False by simp
    qed
    then have "labels ! i = card (set (take i ?xs))"
      using f(3) i len by simp
    then show "labels ! i = card (set (take i coords))"
      using cards by simp
  qed
  have z: "labels ! 0 = 0"
    using o [rule_format, of 0] assms(1) by simp
  have n: "length labels = ?N" using l(2) len by simp
  show ?thesis
    by (rule exI [of _ labels]) (intro conjI res n s e z o)
qed

theorem cluster_som_labels_witness:
  "1 \<le> n_rows example_frame \<and> 1 \<le> n_cols example_frame
   \<and> winner (row_values example_frame 0) two_neuron_grid = Inr (0, 0)
   \<and> winner (row_values example_frame 1) two_neuron_grid = Inr (1, 0)
   \<and> winner (row_values example_frame 2) two_neuron_grid = Inr (0, 0)
   \<and> winner (row_values example_frame 3) two_neuron_grid = Inr (1, 0)
   \<and> cluster_som example_frame two_neuron_grid = Inr (map Label [0, 1, 0, 1])
   \<and> set [0, 1, 0, 1] = {0..<card (set [(0, 0), (1, 0), (0, 0), (1::nat, 0::nat)])}"
proof -
  let ?coords = "[(0, 0), (1, 0), (0, 0), (1::nat, 0::nat)]"
  have h: "1 \<le> n_rows example_frame" "1 \<le> n_cols example_frame"
    "length ?coords = n_rows example_frame"
    by (simp_all add: example_frame_def)
  note w = winner_example_rows
  from cluster_som_labels [OF h w] obtain labels where
    l: "cluster_som example_frame two_neuron_grid = Inr (map Label labels)"
       "set labels = {0..<card (set ?coords)}"
    by blast
  from l(1) cluster_som_example have "map Label labels = map Label [0, 1, 0, 1]"
    by simp
  moreover have "inj Label" by (simp add: inj_on_def)
  ultimately have "labels = [0, 1, 0, 1]"
    by (rule map_injective)
  with l have "cluster_som example_frame two_neuron_grid = Inr (map Label [0, 1, 0, 1])"
    "set [0, 1, 0, 1] = {0..<card (set ?coords)}"
    by simp_all
  moreover have "winner (row_values example_frame 0) two_neuron_grid = Inr (0, 0)"
    "winner (row_values example_frame 1) two_neuron_grid = Inr (1, 0)"
    "winner (row_values example_frame 2) two_neuron_grid = Inr (0, 0)"
    "winner (row_values example_frame 3) two_neuron_grid = Inr (1, 0)"
    using w [rule_format, of 0] w [rule_format, of 1] w [rule_format, of 2]
      w [rule_format, of 3]
    by (simp_all add: example_frame_def)
  ultimately show ?thesis using h(1,2) by blast
qed

text \<open>
  C8, amended. \<open>winner\<close> raises exactly when the length of the sample and the channel
  count \<open>C\<close> of the grid cannot be broadcast (they differ and neither of them is 1), or
  the grid has no neuron (\<open>X = 0\<close> or \<open>Y = 0\<close>). In particular it succeeds for every
  sample of length \<open>C\<close> on a grid with at least one neuron. \<open>cluster_som\<close> on a sample
  matrix with at least one row and column raises under the same condition on the
  channel count of the matrix.
\<close>

theorem search_fails_iff:
  "((\<exists>e. winner sample weights = Inl e) \<longleftrightarrow>
      (length sample \<noteq> num_chans weights \<and> length sample \<noteq> 1 \<and> num_chans weights \<noteq> 1)
      \<or> num_x weights = 0 \<or> num_y weights = 0)
   \<and> (1 \<le> n_rows pixel_mat \<and> 1 \<le> n_cols pixel_mat \<longrightarrow>
       ((\<exists>e. cluster_som pixel_mat weights = Inl e) \<longleftrightarrow>
          (n_cols pixel_mat \<noteq> num_chans weights \<and> n_cols pixel_mat \<noteq> 1
             \<and> num_chans weights \<noteq> 1)
          \<or> num_x weights = 0 \<or> num_y weights = 0))"
proof (intro conjI impI)
  show "(\<exists>e. winner sample weights = Inl e) \<longleftrightarrow>
      (length sample \<noteq> num_chans weights \<and> length sample \<noteq> 1 \<and> num_chans weights \<noteq> 1)
      \<or> num_x weights = 0 \<or> num_y weights = 0"
    by (rule winner_fails_iff)
next
  assume "1 \<le> n_rows pixel_mat \<and> 1 \<le> n_cols pixel_mat"
  then have "1 \<le> n_rows pixel_mat" by simp
  then show "(\<exists>e. cluster_som pixel_mat weights = Inl e) \<longleftrightarrow>
          (n_cols pixel_mat \<noteq> num_chans weights \<and> n_cols pixel_mat \<noteq> 1
             \<and> num_chans weights \<noteq> 1)
          \<or> num_x weights = 0 \<or> num_y weights = 0"
    by (rule cluster_som_fails_iff)
qed

theorem search_fails_iff_witness:
  "(\<exists>e. winner [1, 2, 3] two_neuron_grid = Inl e)
   \<and> length [1, 2, 3::real] \<noteq> num_chans two_neuron_grid
   \<and> length [1, 2, 3::real] \<noteq> 1 \<and> num_chans two_neuron_grid \<noteq> 1
   \<and> 1 \<le> n_rows three_channel_frame \<and> 1 \<le> n_cols three_channel_frame
   \<and> (\<exists>e. cluster_som three_channel_frame two_neuron_grid = Inl e)"
  using search_fails_iff [of "[1, 2, 3]" two_neuron_grid three_channel_frame]
  by (simp add: two_neuron_grid_def three_channel_frame_def)

section \<open>Which arrays a call modifies\<close>

subsection \<open>Every operation only adds objects\<close>

lemma frame_pure_h: "frame (pure_h r)"
  by (simp add: frame_def pure_h_def)

lemma frame_new_obj: "frame (new_obj v)"
  by (simp add: frame_def new_obj_def)

lemma frame_read_vec: "frame (read_vec a)"
  by (simp add: frame_def read_vec_def split: obj.splits)

lemma frame_read_mat: "frame (read_mat a)"
  by (simp add: frame_def read_mat_def split: obj.splits)

lemma frame_read_grid: "frame (read_grid a)"
  by (simp add: frame_def read_grid_def split: obj.splits)

lemma take_take_frame:
  assumes "take (length h) h' = h" and "take (length h') h'' = h'"
  shows "take (length h) h'' = h"
proof -
  have "length (take (length h) h') = length h"
    using assms(1) by simp
  then have "length h \<le> length h'"
    by simp
  then have "take (length h) h'' = take (length h) (take (length h') h'')"
    by (simp add: min_absorb1)
  then show ?thesis using assms by simp
qed

lemma frame_bind_h:
  assumes "frame m" and "\<And>v. frame (f v)"
  shows "frame (bind_h m f)"
  unfolding frame_def
proof
  fix h
  obtain r h' where m: "m h = (r, h')" by (cases "m h")
  have a: "take (length h) h' = h"
    using assms(1) m by (auto simp: frame_def dest: spec [of _ h])
  show "take (length h) (snd (bind_h m f h)) = h"
  proof (cases r)
    case (Inl e)
    then show ?thesis using m a by (simp add: bind_h_def)
  next
    case (Inr v)
    have "take (length h') (snd (f v h')) = h'"
      using assms(2) [of v] by (simp add: frame_def)
    from take_take_frame [OF a this] show ?thesis
      using m Inr by (simp add: bind_h_def)
  qed
qed

lemmas frame_intros =
  frame_bind_h frame_pure_h frame_new_obj frame_read_vec frame_read_mat frame_read_grid

lemma frame_nth:
  assumes "frame m" and "a < length h"
  shows "a < length (snd (m h)) \<and> snd (m h) ! a = h ! a"
proof -
  have t: "take (length h) (snd (m h)) = h"
    using assms(1) by (simp add: frame_def)
  then have "length (take (length h) (snd (m h))) = length h" by simp
  then have "length h \<le> length (snd (m h))" by simp
  moreover have "take (length h) (snd (m h)) ! a = snd (m h) ! a"
    using assms(2) by simp
  ultimately show ?thesis using t assms(2) by simp
qed

lemma frame_winner_h: "frame (winner_h sample weights)"
  unfolding winner_h_def np_subtract_h_def np_linalg_norm_h_def np_argmin_h_def shape_h_def
  by (intro frame_intros)

lemma frame_update_h:
  "frame (update_h sample weights winning_coords sigma learning_rate x_mesh y_mesh)"
  unfolding update_h_def Let_def mat_T_h_def mat_index_h_def mat_map_h_def mat_multiply_h_def
    np_subtract_h_def np_einsum_h_def np_add_h_def
  by (intro frame_intros)

lemma frame_apply_rows_h:
  assumes "\<And>row. frame (f row)"
  shows "frame (apply_rows_h f rows)"
  by (induction rows) (auto intro!: frame_intros assms)

lemma frame_cluster_som_h: "frame (cluster_som_h pixel_mat weights)"
  unfolding cluster_som_h_def
  by (intro frame_intros frame_apply_rows_h frame_winner_h)

lemma frame_row_winner_h:
  "frame (bind_h (new_obj (Vec row)) (\<lambda>sample. winner_h sample weights))"
  by (intro frame_intros frame_winner_h)

subsection \<open>The result is a new array\<close>

lemmas heap_op_defs =
  bind_h_def pure_h_def new_obj_def read_vec_def read_mat_def read_grid_def

lemma fresh_np_add_h: "fresh (np_add_h a b)"
  by (auto simp: fresh_def np_add_h_def heap_op_defs split: sum.splits obj.splits)

lemma fresh_bind_h:
  assumes "frame m" and "\<And>v. fresh (f v)"
  shows "fresh (bind_h m f)"
  unfolding fresh_def
proof (intro allI impI)
  fix h r
  assume a: "fst (bind_h m f h) = Inr r"
  obtain x h' where m: "m h = (x, h')" by (cases "m h")
  have "take (length h) h' = h"
    using assms(1) m by (auto simp: frame_def dest: spec [of _ h])
  then have "length (take (length h) h') = length h" by simp
  then have le: "length h \<le> length h'" by simp
  show "length h \<le> r \<and> r < length (snd (bind_h m f h))"
  proof (cases x)
    case (Inl e)
    then show ?thesis using a m by (simp add: bind_h_def)
  next
    case (Inr v)
    then have r: "fst (f v h') = Inr r" and s: "snd (bind_h m f h) = snd (f v h')"
      using a m by (simp_all add: bind_h_def)
    have "\<forall>h r. fst (f v h) = Inr r \<longrightarrow> length h \<le> r \<and> r < length (snd (f v h))"
      using assms(2) [of v] by (simp add: fresh_def)
    then have "length h' \<le> r \<and> r < length (snd (f v h'))"
      using r by blast
    then show ?thesis
      using le s by simp
  qed
qed

lemma fresh_update_h:
  "fresh (update_h sample weights winning_coords sigma learning_rate x_mesh y_mesh)"
  unfolding update_h_def Let_def
  by (intro fresh_bind_h fresh_np_add_h)
    (simp_all add: mat_T_h_def mat_index_h_def mat_map_h_def mat_multiply_h_def
      np_subtract_h_def np_einsum_h_def frame_intros)

subsection \<open>The functions on objects compute what the functions on values compute\<close>

lemma bind_h_Inl: "m h = (Inl e, h') \<Longrightarrow> bind_h m f h = (Inl e, h')"
  by (simp add: bind_h_def)

lemma bind_h_Inr: "m h = (Inr v, h') \<Longrightarrow> bind_h m f h = f v h'"
  by (simp add: bind_h_def)

lemma winner_h_value:
  assumes "sample < length h" and "h ! sample = Vec s"
    and "weights < length h" and "h ! weights = Grid w"
  shows "fst (winner_h sample weights h) = winner s w"
  using assms
  by (simp add: winner_h_def np_subtract_h_def np_linalg_norm_h_def np_argmin_h_def shape_h_def
      heap_op_defs winner_def Let_def nth_append split: sum.splits)

lemma update_h_value:
  assumes "sample < length h" and "h ! sample = Vec s"
    and "weights < length h" and "h ! weights = Grid w"
    and "x_mesh < length h" and "h ! x_mesh = Mat xm"
    and "y_mesh < length h" and "h ! y_mesh = Mat ym"
  shows "fst (bind_h (update_h sample weights c sigma lr x_mesh y_mesh) read_grid h)
           = update s w c sigma lr xm ym"
  using assms
  by (simp add: update_h_def mat_T_h_def mat_index_h_def mat_map_h_def mat_multiply_h_def
      np_subtract_h_def np_einsum_h_def np_add_h_def
      heap_op_defs update_def Let_def nth_append split: sum.splits)

lemma row_winner_h_value:
  assumes "weights < length h" and "h ! weights = Grid w"
  shows "fst (bind_h (new_obj (Vec row)) (\<lambda>sample. winner_h sample weights) h) = winner row w"
proof -
  have "fst (winner_h (length h) weights (h @ [Vec row])) = winner row w"
    using assms by (intro winner_h_value) (simp_all add: nth_append)
  then show ?thesis by (simp add: bind_h_def new_obj_def)
qed

lemma apply_rows_h_value:
  assumes "weights < length h" and "h ! weights = Grid w"
  shows "fst (apply_rows_h (\<lambda>row. bind_h (new_obj (Vec row)) (\<lambda>sample. winner_h sample weights))
                rows h)
           = apply_rows (\<lambda>row. winner row w) rows"
  using assms
proof (induction rows arbitrary: h)
  case Nil
  show ?case by (simp add: pure_h_def)
next
  case (Cons row rows)
  let ?f = "\<lambda>row. bind_h (new_obj (Vec row)) (\<lambda>sample. winner_h sample weights)"
  obtain x h1 where f: "?f row h = (x, h1)" by (cases "?f row h")
  have x: "x = winner row w"
    using row_winner_h_value [OF Cons.prems, of row] f by simp
  have h1: "weights < length h1 \<and> h1 ! weights = Grid w"
    using frame_nth [OF frame_row_winner_h Cons.prems(1), of row weights] f Cons.prems(2)
    by simp
  show ?case
  proof (cases x)
    case (Inl e)
    then have "?f row h = (Inl e, h1)" using f by simp
    then have "apply_rows_h ?f (row # rows) h = (Inl e, h1)"
      by (simp add: bind_h_Inl)
    moreover have "winner row w = Inl e" using x Inl by simp
    ultimately show ?thesis by simp
  next
    case (Inr v)
    then have wv: "winner row w = Inr v" using x by simp
    from Inr have "?f row h = (Inr v, h1)" using f by simp
    then have step: "apply_rows_h ?f (row # rows) h
        = bind_h (apply_rows_h ?f rows) (\<lambda>vs. pure_h (Inr (v # vs))) h1"
      by (simp add: bind_h_Inr)
    obtain y h2 where g: "apply_rows_h ?f rows h1 = (y, h2)"
      by (cases "apply_rows_h ?f rows h1")
    have y: "y = apply_rows (\<lambda>row. winner row w) rows"
      using Cons.IH [of h1] h1 g by simp
    show ?thesis
    proof (cases y)
      case (Inl e)
      then have "apply_rows_h ?f rows h1 = (Inl e, h2)" using g by simp
      then have "apply_rows_h ?f (row # rows) h = (Inl e, h2)"
        unfolding step by (rule bind_h_Inl)
      moreover have "apply_rows (\<lambda>row. winner row w) rows = Inl e" using y Inl by simp
      ultimately show ?thesis using wv by simp
    next
      case (Inr vs)
      then have "apply_rows_h ?f rows h1 = (Inr vs, h2)" using g by simp
      then have "apply_rows_h ?f (row # rows) h = pure_h (Inr (v # vs)) h2"
        unfolding step by (rule bind_h_Inr)
      moreover have "apply_rows (\<lambda>row. winner row w) rows = Inr vs" using y Inr by simp
      ultimately show ?thesis using wv by (simp add: pure_h_def)
    qed
  qed
qed

lemma cluster_som_h_value:
  assumes "weights < length h" and "h ! weights = Grid w"
  shows "fst (cluster_som_h pixel_mat weights h) = cluster_som pixel_mat w"
proof -
  let ?f = "\<lambda>row. bind_h (new_obj (Vec row)) (\<lambda>sample. winner_h sample weights)"
  obtain y h1 where g: "apply_rows_h ?f (df_rows pixel_mat) h = (y, h1)"
    by (cases "apply_rows_h ?f (df_rows pixel_mat) h")
  have "y = apply_rows (\<lambda>row. winner row w) (df_rows pixel_mat)"
    using apply_rows_h_value [OF assms, of "df_rows pixel_mat"] g by simp
  then have y: "y = apply_rows (\<lambda>row. winner row w) (df_rows pixel_mat)" .
  show ?thesis
  proof (cases y)
    case (Inl e)
    then have "apply_rows_h ?f (df_rows pixel_mat) h = (Inl e, h1)" using g by simp
    then have "cluster_som_h pixel_mat weights h = (Inl e, h1)"
      unfolding cluster_som_h_def by (rule bind_h_Inl)
    moreover have "apply_rows (\<lambda>row. winner row w) (df_rows pixel_mat) = Inl e"
      using y Inl by simp
    ultimately show ?thesis by (simp add: cluster_som_def)
  next
    case (Inr coords)
    then have "apply_rows_h ?f (df_rows pixel_mat) h = (Inr coords, h1)" using g by simp
    then have "cluster_som_h pixel_mat weights h = pure_h (relabel coords) h1"
      unfolding cluster_som_h_def by (rule bind_h_Inr)
    moreover have "apply_rows (\<lambda>row. winner row w) (df_rows pixel_mat) = Inr coords"
      using y Inr by simp
    ultimately show ?thesis by (simp add: cluster_som_def pure_h_def)
  qed
qed

text \<open>
  C9. In a store that holds a sample, the weights and the two meshes, a call of
  \<open>winner\<close>, of \<open>cluster_som\<close> and of \<open>update\<close> returns what the function on values
  returns and leaves every object of the store unchanged, whether it raises or not: the
  store after the call begins with the store before it, and the object at the address of
  the weights is the same grid. The address \<open>update\<close> returns is new: it holds a newly
  computed grid, not the input.
\<close>

theorem arrays_not_modified:
  assumes "sample < length h" and "h ! sample = Vec s"
    and "weights < length h" and "h ! weights = Grid w"
    and "x_mesh < length h" and "h ! x_mesh = Mat xm"
    and "y_mesh < length h" and "h ! y_mesh = Mat ym"
  shows "fst (winner_h sample weights h) = winner s w
     \<and> take (length h) (snd (winner_h sample weights h)) = h
     \<and> snd (winner_h sample weights h) ! weights = Grid w
     \<and> fst (cluster_som_h pixel_mat weights h) = cluster_som pixel_mat w
     \<and> take (length h) (snd (cluster_som_h pixel_mat weights h)) = h
     \<and> snd (cluster_som_h pixel_mat weights h) ! weights = Grid w
     \<and> fst (bind_h (update_h sample weights c sigma learning_rate x_mesh y_mesh) read_grid h)
         = update s w c sigma learning_rate xm ym
     \<and> take (length h) (snd (update_h sample weights c sigma learning_rate x_mesh y_mesh h)) = h
     \<and> snd (update_h sample weights c sigma learning_rate x_mesh y_mesh h) ! weights = Grid w
     \<and> (\<forall>r. fst (update_h sample weights c sigma learning_rate x_mesh y_mesh h) = Inr r \<longrightarrow>
            length h \<le> r
            \<and> r < length (snd (update_h sample weights c sigma learning_rate x_mesh y_mesh h)))"
proof -
  note fw = frame_winner_h [of sample weights]
  note fc = frame_cluster_som_h [of pixel_mat weights]
  note fu = frame_update_h [of sample weights c sigma learning_rate x_mesh y_mesh]
  have w1: "fst (winner_h sample weights h) = winner s w"
    by (rule winner_h_value [OF assms(1-4)])
  have w2: "take (length h) (snd (winner_h sample weights h)) = h"
    using fw by (simp add: frame_def)
  have w3: "snd (winner_h sample weights h) ! weights = Grid w"
    using frame_nth [OF fw assms(3)] assms(4) by simp
  have c1: "fst (cluster_som_h pixel_mat weights h) = cluster_som pixel_mat w"
    by (rule cluster_som_h_value [OF assms(3,4)])
  have c2: "take (length h) (snd (cluster_som_h pixel_mat weights h)) = h"
    using fc by (simp add: frame_def)
  have c3: "snd (cluster_som_h pixel_mat weights h) ! weights = Grid w"
    using frame_nth [OF fc assms(3)] assms(4) by simp
  have u1: "fst (bind_h (update_h sample weights c sigma learning_rate x_mesh y_mesh) read_grid h)
         = update s w c sigma learning_rate xm ym"
    by (rule update_h_value [OF assms])
  have u2: "take (length h) (snd (update_h sample weights c sigma learning_rate x_mesh y_mesh h)) = h"
    using fu by (simp add: frame_def)
  have u3: "snd (update_h sample weights c sigma learning_rate x_mesh y_mesh h) ! weights = Grid w"
    using frame_nth [OF fu assms(3)] assms(4) by simp
  have u4: "\<forall>r. fst (update_h sample weights c sigma learning_rate x_mesh y_mesh h) = Inr r \<longrightarrow>
            length h \<le> r
            \<and> r < length (snd (update_h sample weights c sigma learning_rate x_mesh y_mesh h))"
    using fresh_update_h [of sample weights c sigma learning_rate x_mesh y_mesh]
    by (simp add: fresh_def)
  show ?thesis
    by (intro conjI w1 w2 w3 c1 c2 c3 u1 u2 u3 u4)
qed

theorem arrays_not_modified_witness:
  "(1::nat) < length example_heap \<and> example_heap ! 1 = Grid two_neuron_grid
   \<and> fst (winner_h 0 1 example_heap) = winner [1, 0] two_neuron_grid
   \<and> snd (winner_h 0 1 example_heap) ! 1 = Grid two_neuron_grid
   \<and> snd (cluster_som_h example_frame 1 example_heap) ! 1 = Grid two_neuron_grid
   \<and> snd (update_h 0 1 (0, 0) 1 (1 / 2) 2 3 example_heap) ! 1 = Grid two_neuron_grid
   \<and> take (length example_heap) (snd (update_h 0 1 (0, 0) 1 (1 / 2) 2 3 example_heap))
       = example_heap"
proof -
  have h: "0 < length example_heap" "example_heap ! 0 = Vec [1, 0]"
    "1 < length example_heap" "example_heap ! 1 = Grid two_neuron_grid"
    "2 < length example_heap" "example_heap ! 2 = Mat (fst (np_meshgrid 2 1))"
    "3 < length example_heap" "example_heap ! 3 = Mat (snd (np_meshgrid 2 1))"
    by (simp_all add: example_heap_def)
  from arrays_not_modified [OF h, of example_frame "(0, 0)" 1 "1 / 2"] h(3,4)
  show ?thesis by simp
qed

end
